theory Spec2Isabelle
  imports
    Main
    "HOL-Library.Sublist"
    "HOL-Library.Char_ord"
    "HOL-Library.List_Lexorder"
    "HOL-Library.Multiset"
begin

section \<open>DNS zone synthesis of the mail appliance (management/dns\_update.py)\<close>

text \<open>
  A shallow embedding of \<^verbatim>\<open>management/dns_update.py\<close>.  Python strings are
  \<^typ>\<open>string\<close> (the text handled is ASCII: domain names, zone files, key files),
  the settings dictionary \<^verbatim>\<open>env\<close> is a record, files on disk are a map from
  path to content, exceptions are values of the type \<open>error\<close>, and the clock and
  the external commands are arguments.
\<close>

subsection \<open>Settings and errors\<close>

record env =
  PRIMARY_HOSTNAME :: string
  PUBLIC_IP :: string
  PUBLIC_IPV6 :: "string option"
  STORAGE_ROOT :: string

datatype error =
    ValueError
  | AttributeError
  | FileNotFoundError
  | CalledProcessError
  | Exception string

subsection \<open>Python string operations\<close>

definition startswith :: "string \<Rightarrow> string \<Rightarrow> bool" where
  "startswith s pre = (take (length pre) s = pre)"

definition endswith :: "string \<Rightarrow> string \<Rightarrow> bool" where
  "endswith s suf = (length suf \<le> length s \<and> drop (length s - length suf) s = suf)"

text \<open>\<^verbatim>\<open>xs.index(x)\<close>: the first position of \<open>x\<close>, ValueError when absent.\<close>

fun index :: "'a list \<Rightarrow> 'a \<Rightarrow> nat option" where
  "index [] x = None"
| "index (y # ys) x = (if y = x then Some 0 else map_option Suc (index ys x))"

definition whitespace :: "char list" where
  "whitespace = [CHR 0x20, CHR 0x09, CHR 0x0A, CHR 0x0B, CHR 0x0C, CHR 0x0D,
                 CHR 0x1C, CHR 0x1D, CHR 0x1E, CHR 0x1F]"

text \<open>The classes \<^verbatim>\<open>\s\<close> and \<^verbatim>\<open>\d\<close> of the module re, on ASCII text.\<close>

definition is_space :: "char \<Rightarrow> bool" where
  "is_space c = (c \<in> set whitespace)"

definition is_digit :: "char \<Rightarrow> bool" where
  "is_digit c = (c \<in> set ''0123456789'')"

definition tab :: string where "tab = [CHR 0x09]"
definition nl :: string where "nl = [CHR 0x0A]"
definition dquote :: string where "dquote = [CHR 0x22]"

text \<open>\<^verbatim>\<open>s.strip()\<close>\<close>

definition strip :: "string \<Rightarrow> string" where
  "strip s = rev (dropWhile is_space (rev (dropWhile is_space s)))"

text \<open>
  \<^verbatim>\<open>s.replace(old, new)\<close>: every occurrence of \<open>old\<close>, left to right and without
  overlap; an empty \<open>old\<close> matches before every character and at the end.
\<close>

fun replace :: "string \<Rightarrow> string \<Rightarrow> string \<Rightarrow> string" where
  "replace [] new s = new @ concat (map (\<lambda>c. c # new) s)"
| "replace (a # old) new [] = []"
| "replace (a # old) new (c # cs) =
     (if startswith (c # cs) (a # old)
      then new @ replace (a # old) new (drop (length old) cs)
      else c # replace (a # old) new cs)"

text \<open>\<^verbatim>\<open>s.split(c)\<close> for a separator of one character.\<close>

fun split :: "char \<Rightarrow> string \<Rightarrow> string list" where
  "split sep [] = [[]]"
| "split sep (c # cs) =
     (let parts = split sep cs
      in if c = sep then [] # parts else (c # hd parts) # tl parts)"

text \<open>\<^verbatim>\<open>sep.join(parts)\<close>\<close>

fun join :: "string \<Rightarrow> string list \<Rightarrow> string" where
  "join sep [] = []"
| "join sep [p] = p"
| "join sep (p # q # ps) = p @ sep @ join sep (q # ps)"

text \<open>\<^verbatim>\<open>int(s)\<close> on a string of decimal digits and \<^verbatim>\<open>str(n)\<close> for \<open>n \<ge> 0\<close>.\<close>

definition digit_val :: "char \<Rightarrow> nat" where
  "digit_val c = (case index ''0123456789'' c of Some d \<Rightarrow> d | None \<Rightarrow> 0)"

definition int_of_str :: "string \<Rightarrow> nat" where
  "int_of_str s = foldl (\<lambda>n c. 10 * n + digit_val c) 0 s"

definition digit_char :: "nat \<Rightarrow> char" where
  "digit_char d = ''0123456789'' ! (d mod 10)"

fun str_of_nat :: "nat \<Rightarrow> string" where
  "str_of_nat n = (if n < 10 then [digit_char n] else str_of_nat (n div 10) @ [digit_char n])"

declare str_of_nat.simps [simp del]

text \<open>\<^verbatim>\<open>os.path.join(a, b)\<close> for two components.\<close>

definition os_path_join :: "string \<Rightarrow> string \<Rightarrow> string" where
  "os_path_join a b =
     (if startswith b ''/'' then b
      else if a = [] \<or> endswith a ''/'' then a @ b
      else a @ ''/'' @ b)"

subsection \<open>Zone apex selection: get\_dns\_domains and get\_dns\_zones\<close>

text \<open>
  \<^verbatim>\<open>get_mail_domains\<close> (module mailconfig) is not part of the sources at hand; its
  result, a set of domain names, is the argument \<open>mail_domains\<close>.
\<close>

definition get_dns_domains :: "string set \<Rightarrow> env \<Rightarrow> string set" where
  "get_dns_domains mail_domains env = mail_domains \<union> {PRIMARY_HOSTNAME env}"

text \<open>
  A Python set iterates in an order the language does not fix.  Where the source
  iterates over the set \<^verbatim>\<open>domains\<close>, the model takes a list \<open>domains\<close> holding
  the elements in the order of that iteration; \<open>iteration_of\<close> says that a list is
  such an enumeration.  Every property below is proved for all enumerations.
\<close>

definition iteration_of :: "'a list \<Rightarrow> 'a set \<Rightarrow> bool" where
  "iteration_of xs S = (distinct xs \<and> set xs = S)"

text \<open>
  The loop of lines 26-34.  \<open>zone_domains\<close> is the set built so far (kept in
  insertion order); the inner \<^verbatim>\<open>for ... break ... else\<close> adds \<open>domain\<close> exactly
  when no member \<open>d\<close> has \<^verbatim>\<open>domain.endswith("." + d)\<close>.
\<close>

fun zone_domains_loop :: "string list \<Rightarrow> string list \<Rightarrow> string list" where
  "zone_domains_loop zone_domains [] = zone_domains"
| "zone_domains_loop zone_domains (domain # rest) =
     (if \<exists>d \<in> set zone_domains. endswith domain (''.'' @ d)
      then zone_domains_loop zone_domains rest
      else zone_domains_loop (List.insert domain zone_domains) rest)"

text \<open>
  \<^verbatim>\<open>safe_domain_name\<close> and \<^verbatim>\<open>sort_domains\<close> (module utils) are not part of the
  sources at hand and are arguments.  \<^verbatim>\<open>zone_domains\<close> is a Python set as well, and
  line 38 iterates over it: the order of that iteration is given by the argument
  \<open>set_iteration\<close>, a function from the members in insertion order to the members in
  iteration order, of which the properties below assume only that it enumerates the
  set.  The list \<^verbatim>\<open>zonefiles\<close> is built in that order and handed to
  \<^verbatim>\<open>sort_domains\<close> in that order.  The final \<^verbatim>\<open>zonefiles.sort\<close> orders the
  zones by their position in \<^verbatim>\<open>zone_order\<close>; \<^verbatim>\<open>zone_order.index\<close> raises
  ValueError for a zone that \<^verbatim>\<open>sort_domains\<close> dropped.  Python's sort is stable,
  as is \<^const>\<open>sort_key\<close>.
\<close>

definition get_dns_zones ::
  "(string \<Rightarrow> string) \<Rightarrow> (string list \<Rightarrow> env \<Rightarrow> string list) \<Rightarrow> (string list \<Rightarrow> string list)
    \<Rightarrow> string list \<Rightarrow> env \<Rightarrow> error + (string \<times> string) list" where
  "get_dns_zones safe_domain_name sort_domains set_iteration domains env =
     (let zone_domains = zone_domains_loop [] (sort_key length domains);
          zonefiles = map (\<lambda>domain. (domain, safe_domain_name domain @ ''.txt''))
                        (set_iteration zone_domains);
          zone_order = sort_domains (map fst zonefiles) env
      in if \<forall>zone \<in> set zonefiles. index zone_order (fst zone) \<noteq> None
         then Inr (sort_key (\<lambda>zone. the (index zone_order (fst zone))) zonefiles)
         else Inl ValueError)"

text \<open>A zone with apex \<open>a\<close> covers the domain \<open>x\<close>: \<open>x\<close> is \<open>a\<close> or ends with a dot and \<open>a\<close>.\<close>

definition covers :: "string \<Rightarrow> string \<Rightarrow> bool" where
  "covers a x = (x = a \<or> endswith x (''.'' @ a))"

subsection \<open>Record builder: build\_zone\<close>

text \<open>
  A resource record is the tuple \<^verbatim>\<open>(qname, rtype, value)\<close>, with \<^verbatim>\<open>None\<close> as
  qname for the apex.
\<close>

type_synonym rr = "string option \<times> string \<times> string"

text \<open>
  The user's overrides (\<^verbatim>\<open>dns/custom.yaml\<close>): a dictionary from a name to a bare
  string or to a dictionary from record type to value.  Dictionaries are association
  lists in the order of \<^verbatim>\<open>items()\<close>.
\<close>

datatype custom_value = Str string | Dict "(string \<times> string) list"

type_synonym fs = "string \<rightharpoonup> string"

text \<open>
  \<^verbatim>\<open>build_tlsa_record\<close>: the call of openssl through \<^verbatim>\<open>shell\<close> (module utils) and
  the SHA-256 digest are outside the sources at hand; the argument \<open>cert_sha256\<close> is
  the hexadecimal digest of the certificate, or the exception of the call.
\<close>

definition build_tlsa_record :: "error + string \<Rightarrow> error + string" where
  "build_tlsa_record cert_sha256 =
     (case cert_sha256 of Inl e \<Rightarrow> Inl e | Inr certhash \<Rightarrow> Inr (''3 0 1 '' @ certhash))"

text \<open>
  The pattern \<^verbatim>\<open>(\S+)\s+IN\s+TXT\s+(\(.*\))\s*;\<close> of line 195, matched at the start of
  the text with \<^verbatim>\<open>re.S\<close>.  The classes of neighbouring items are disjoint, so each
  greedy item takes its whole run; \<^verbatim>\<open>.*\<close> gives back characters until a closing
  parenthesis is followed by optional white space and a semicolon, which is the last
  such parenthesis.  \<open>paren_end cs\<close> is the number of characters of \<open>cs\<close> up to and
  including that parenthesis.
\<close>

fun paren_end :: "string \<Rightarrow> nat option" where
  "paren_end [] = None"
| "paren_end (c # cs) =
     (case paren_end cs of
        Some n \<Rightarrow> Some (Suc n)
      | None \<Rightarrow> if c = CHR '')'' \<and> startswith (dropWhile is_space cs) '';'' then Some 1 else None)"

definition dkim_match :: "string \<Rightarrow> (string \<times> string) option" where
  "dkim_match s =
     (let g1 = takeWhile (\<lambda>c. \<not> is_space c) s;
          r1 = dropWhile (\<lambda>c. \<not> is_space c) s;
          r2 = dropWhile is_space r1;
          r3 = drop 2 r2;
          r4 = dropWhile is_space r3;
          r5 = drop 3 r4;
          r6 = dropWhile is_space r5
      in if g1 = [] \<or> r2 = r1 \<or> \<not> startswith r2 ''IN'' then None
         else if r4 = r3 \<or> \<not> startswith r4 ''TXT'' then None
         else if r6 = r5 \<or> \<not> startswith r6 ''('' then None
         else (case paren_end (tl r6) of
                 None \<Rightarrow> None
               | Some n \<Rightarrow> Some (g1, take (Suc n) r6)))"

text \<open>
  \<^verbatim>\<open>has_rec(qname, rtype)\<close>.  The second argument is compared with the type of each
  record, a string; the source passes it a string at lines 185-188 and the override's
  value, a string or a dictionary, at line 176, so it has the type of override values
  here.  A string never equals a dictionary.
\<close>

definition has_rec :: "rr list \<Rightarrow> string option \<Rightarrow> custom_value \<Rightarrow> bool" where
  "has_rec records qname rtype =
     (\<exists>rec \<in> set records. fst rec = qname \<and> Str (fst (snd rec)) = rtype)"

text \<open>The loop over \<^verbatim>\<open>additional_records.items()\<close>, lines 170-182.\<close>

fun add_custom :: "string \<Rightarrow> rr list \<Rightarrow> (string \<times> custom_value) list \<Rightarrow> rr list" where
  "add_custom domain records [] = records"
| "add_custom domain records ((qname, value) # rest) =
     (if qname \<noteq> domain \<and> \<not> endswith qname (''.'' @ domain) then add_custom domain records rest
      else
        let qname' = (if qname = domain then None
                      else Some (take (length qname - length (''.'' @ domain)) qname))
        in if has_rec records qname' value then add_custom domain records rest
           else (case value of
                   Str v \<Rightarrow> add_custom domain (records @ [(qname', ''A'', v)]) rest
                 | Dict items \<Rightarrow>
                     add_custom domain
                       (records @ map (\<lambda>(rtype, value2).
                           (qname', rtype,
                            if rtype = ''TXT'' then dquote @ value2 @ dquote else value2)) items)
                       rest))"

text \<open>\<^verbatim>\<open>env.get('PUBLIC_IPV6')\<close> as a condition: set and not empty.\<close>

definition has_ipv6 :: "env \<Rightarrow> bool" where
  "has_ipv6 env = (case PUBLIC_IPV6 env of None \<Rightarrow> False | Some a \<Rightarrow> a \<noteq> [])"

text \<open>Lines 185-188.\<close>

definition add_defaults :: "env \<Rightarrow> rr list \<Rightarrow> rr list" where
  "add_defaults env records =
     (let records = (if \<not> has_rec records None (Str ''A'')
                     then records @ [(None, ''A'', PUBLIC_IP env)] else records);
          records = (if has_ipv6 env \<and> \<not> has_rec records None (Str ''AAAA'')
                     then records @ [(None, ''AAAA'', the (PUBLIC_IPV6 env))] else records);
          records = (if \<not> has_rec records (Some ''www'') (Str ''A'')
                     then records @ [(Some ''www'', ''A'', PUBLIC_IP env)] else records);
          records = (if has_ipv6 env \<and> \<not> has_rec records (Some ''www'') (Str ''AAAA'')
                     then records @ [(Some ''www'', ''AAAA'', the (PUBLIC_IPV6 env))] else records)
      in records)"

text \<open>
  Lines 191-199.  When the file exists and the pattern does not match, \<^verbatim>\<open>m\<close> is
  \<^verbatim>\<open>None\<close> and \<^verbatim>\<open>m.group(1)\<close> raises AttributeError.
\<close>

definition add_dkim :: "fs \<Rightarrow> env \<Rightarrow> rr list \<Rightarrow> error + rr list" where
  "add_dkim fs env records =
     (case fs (os_path_join (STORAGE_ROOT env) ''mail/dkim/mail.txt'') of
        None \<Rightarrow> Inr records
      | Some text \<Rightarrow>
          (case dkim_match text of
             None \<Rightarrow> Inl AttributeError
           | Some (g1, g2) \<Rightarrow>
               Inr (records @ [(Some g1, ''TXT'', g2),
                               (Some ''_dmarc'', ''TXT'', dquote @ ''v=DMARC1; p=quarantine'' @ dquote)])))"

text \<open>
  The sort key of line 202: the empty list for an apex record, the reversed labels of
  the qname otherwise.  Python compares lists, and strings, lexicographically.
\<close>

definition sort_key_of :: "rr \<Rightarrow> string list" where
  "sort_key_of rec = (case fst rec of None \<Rightarrow> [] | Some qname \<Rightarrow> rev (split (CHR ''.'') qname))"

text \<open>The body of the loop over the records of a subdomain, lines 148-152.\<close>

definition requalify :: "string \<Rightarrow> rr \<Rightarrow> rr" where
  "requalify subdomain_qname rec =
     (case rec of (child_qname, child_rtype, child_value) \<Rightarrow>
        (Some (case child_qname of
                 None \<Rightarrow> subdomain_qname
               | Some q \<Rightarrow> q @ ''.'' @ subdomain_qname),
         child_rtype, child_value))"

text \<open>A loop whose body may raise: the first exception ends it.\<close>

fun collect :: "(error + 'a list) list \<Rightarrow> error + 'a list" where
  "collect [] = Inr []"
| "collect (Inl e # rest) = Inl e"
| "collect (Inr xs # rest) = (case collect rest of Inl e \<Rightarrow> Inl e | Inr ys \<Rightarrow> Inr (xs @ ys))"

text \<open>Lines 129-141: the records every zone starts with.\<close>

definition builtin_records :: "env \<Rightarrow> bool \<Rightarrow> rr list" where
  "builtin_records env with_ns =
     (let records = (if with_ns
                     then [(None, ''NS'', ''ns1.'' @ PRIMARY_HOSTNAME env @ ''.''),
                           (None, ''NS'', ''ns2.'' @ PRIMARY_HOSTNAME env @ ''.'')]
                     else []);
          records = records @ [(None, ''MX'', ''10 '' @ PRIMARY_HOSTNAME env @ ''.'')];
          records = records @ [(None, ''TXT'', dquote @ ''v=spf1 mx -all'' @ dquote)]
      in records)"

text \<open>Lines 155-161: the records of the zone of the primary hostname.\<close>

definition primary_records :: "error + string \<Rightarrow> string \<Rightarrow> env \<Rightarrow> error + rr list" where
  "primary_records cert_sha256 domain env =
     (if domain = PRIMARY_HOSTNAME env
      then (case build_tlsa_record cert_sha256 of
              Inl e \<Rightarrow> Inl e
            | Inr tlsa \<Rightarrow> Inr [(Some ''ns1'', ''A'', PUBLIC_IP env),
                                (Some ''ns2'', ''A'', PUBLIC_IP env),
                                (Some ''_25._tcp'', ''TLSA'', tlsa)])
      else Inr [])"

text \<open>
  \<open>build_zone_records\<close> is the list \<^verbatim>\<open>records\<close> of \<^verbatim>\<open>build_zone\<close> as it stands
  before line 202, in the order of the appends; \<open>build_zone\<close> sorts it (lines 202-204).
  The recursive call of line 147 is a call of \<^verbatim>\<open>build_zone\<close> itself, so it returns
  the sorted records of the subdomain.  Python's \<^verbatim>\<open>list.sort\<close> is stable, as is
  \<^const>\<open>sort_key\<close>.  The slice \<^verbatim>\<open>subdomain[0:-len("." + domain)]\<close> cuts that many
  characters off the end, and is empty for a shorter string.
\<close>

function build_zone_records ::
  "error + string \<Rightarrow> fs \<Rightarrow> string \<Rightarrow> string list \<Rightarrow> (string \<times> custom_value) list \<Rightarrow> env \<Rightarrow> bool
    \<Rightarrow> error + rr list" where
  "build_zone_records cert_sha256 fs domain subdomains additional_records env with_ns =
     (case collect (map (\<lambda>subdomain.
              case build_zone_records cert_sha256 fs subdomain [] [] env False of
                Inl e \<Rightarrow> Inl e
              | Inr children \<Rightarrow>
                  Inr (map (requalify (take (length subdomain - length (''.'' @ domain)) subdomain))
                         (sort_key sort_key_of children)))
            subdomains) of
        Inl e \<Rightarrow> Inl e
      | Inr sub_records \<Rightarrow>
          (case primary_records cert_sha256 domain env of
             Inl e \<Rightarrow> Inl e
           | Inr primary \<Rightarrow>
               add_dkim fs env
                 (add_defaults env
                    (add_custom domain (builtin_records env with_ns @ sub_records @ primary)
                       additional_records))))"
  by pat_completeness auto
termination
  by (relation "measure (\<lambda>(c, f, d, subdomains, a, e, w). length subdomains)")
     (auto simp: length_pos_if_in_set)

declare build_zone_records.simps [simp del]

definition build_zone ::
  "error + string \<Rightarrow> fs \<Rightarrow> string \<Rightarrow> string list \<Rightarrow> (string \<times> custom_value) list \<Rightarrow> env \<Rightarrow> bool
    \<Rightarrow> error + rr list" where
  "build_zone cert_sha256 fs domain subdomains additional_records env with_ns =
     (case build_zone_records cert_sha256 fs domain subdomains additional_records env with_ns of
        Inl e \<Rightarrow> Inl e
      | Inr records \<Rightarrow> Inr (sort_key sort_key_of records))"

subsection \<open>Dates and times (module datetime)\<close>

text \<open>
  A value of \<^verbatim>\<open>datetime.datetime\<close> without time zone.  \<open>toordinal\<close> numbers the days
  of the proleptic Gregorian calendar from 1 January of year 1, and \<open>microseconds\<close>
  is the position of an instant on the time line, so that the difference of two
  instants, a \<^verbatim>\<open>timedelta\<close>, is the difference of their positions.
\<close>

record datetime =
  year :: nat
  month :: nat
  day :: nat
  hour :: nat
  minute :: nat
  second :: nat
  microsecond :: nat

definition is_leap :: "nat \<Rightarrow> bool" where
  "is_leap y = (y mod 4 = 0 \<and> (if y mod 100 = 0 then y mod 400 = 0 else True))"

definition days_in_month :: "nat \<Rightarrow> nat \<Rightarrow> nat" where
  "days_in_month y m =
     (if m = 2 then (if is_leap y then 29 else 28)
      else if m = 4 \<or> m = 6 \<or> m = 9 \<or> m = 11 then 30 else 31)"

definition toordinal :: "datetime \<Rightarrow> nat" where
  "toordinal dt =
     (let y = year dt - 1
      in y * 365 + y div 4 - y div 100 + y div 400
         + sum_list (map (days_in_month (year dt)) [1..<month dt]) + day dt)"

definition microseconds :: "datetime \<Rightarrow> int" where
  "microseconds dt =
     int ((((toordinal dt * 24 + hour dt) * 60 + minute dt) * 60 + second dt) * 1000000
          + microsecond dt)"

text \<open>\<^verbatim>\<open>datetime.timedelta(days=n)\<close>, in microseconds.\<close>

definition timedelta_days :: "nat \<Rightarrow> int" where
  "timedelta_days n = int n * 86400000000"

text \<open>
  \<^verbatim>\<open>datetime.datetime.strptime(s, "%Y%m%d%H%M%S")\<close> for a string of 14 digits, which
  is what line 287 passes (the group \<^verbatim>\<open>(\d{14})\<close> of line 280).  Every field of the
  format takes at most two digits, the year four, so 14 digits are matched only with
  all fields at full width; a field out of range, a day that the month does not have
  and the year 0 raise ValueError.
\<close>

definition strptime :: "string \<Rightarrow> error + datetime" where
  "strptime s =
     (let Y = int_of_str (take 4 s);
          m = int_of_str (take 2 (drop 4 s));
          d = int_of_str (take 2 (drop 6 s));
          H = int_of_str (take 2 (drop 8 s));
          M = int_of_str (take 2 (drop 10 s));
          S = int_of_str (take 2 (drop 12 s))
      in if length s = 14 \<and> list_all is_digit s \<and> 1 \<le> Y \<and> 1 \<le> m \<and> m \<le> 12
            \<and> 1 \<le> d \<and> d \<le> days_in_month Y m \<and> H < 24 \<and> M < 60 \<and> S < 60
         then Inr \<lparr>year = Y, month = m, day = d, hour = H, minute = M, second = S, microsecond = 0\<rparr>
         else Inl ValueError)"

text \<open>
  \<^verbatim>\<open>strftime\<close> with the formats \<^verbatim>\<open>"%Y%m%d00"\<close> (line 293) and \<^verbatim>\<open>"%Y%m%d"\<close>
  (line 405).  The month and the day are printed with two digits.  The year is printed
  as \<^verbatim>\<open>str\<close> prints it from the year 1000 on; for earlier years the C library
  decides about leading zeros, and the model pads to four digits.
\<close>

definition pad :: "nat \<Rightarrow> nat \<Rightarrow> string" where
  "pad width n = replicate (width - length (str_of_nat n)) (CHR ''0'') @ str_of_nat n"

definition strftime_date :: "datetime \<Rightarrow> string" where
  "strftime_date dt = pad 4 (year dt) @ pad 2 (month dt) @ pad 2 (day dt)"

definition strftime_serial :: "datetime \<Rightarrow> string" where
  "strftime_serial dt = strftime_date dt @ ''00''"

text \<open>The day after, at the same time of day; \<^verbatim>\<open>+ timedelta(days=30)\<close> is 30 such steps.\<close>

definition next_day :: "datetime \<Rightarrow> datetime" where
  "next_day dt =
     (if day dt < days_in_month (year dt) (month dt) then dt\<lparr>day := day dt + 1\<rparr>
      else if month dt < 12 then dt\<lparr>month := month dt + 1, day := 1\<rparr>
      else dt\<lparr>year := year dt + 1, month := 1, day := 1\<rparr>)"

subsection \<open>Zone file renderer: write\_nsd\_zone\<close>

text \<open>
  The text of the zone before the serial number is filled in (lines 241-262): the
  template with the domain and the primary hostname, then one line per record.  The
  qname is written when it is neither \<^verbatim>\<open>None\<close> nor empty.
\<close>

definition zone_text :: "string \<Rightarrow> rr list \<Rightarrow> env \<Rightarrow> string" where
  "zone_text domain records env =
     nl @ ''$ORIGIN '' @ domain @ ''.'' @ nl
     @ ''$TTL 86400           ; default time to live'' @ nl
     @ nl
     @ ''@ IN SOA ns1.'' @ PRIMARY_HOSTNAME env @ ''. hostmaster.'' @ PRIMARY_HOSTNAME env @ ''. ('' @ nl
     @ ''           __SERIAL__     ; serial number'' @ nl
     @ ''           28800       ; Refresh'' @ nl
     @ ''           7200        ; Retry'' @ nl
     @ ''           864000      ; Expire'' @ nl
     @ ''           86400       ; Min TTL'' @ nl
     @ ''           )'' @ nl
     @ concat (map (\<lambda>(subdomain, querytype, value).
          (case subdomain of None \<Rightarrow> [] | Some qname \<Rightarrow> qname)
          @ tab @ ''IN'' @ tab @ querytype @ tab @ value @ nl) records)"

text \<open>
  The pattern \<^verbatim>\<open>\sRRSIG\s+SOA\s+\d+\s+\d+\s\d+\s+(\d{14})\<close> of line 280.  Neighbouring
  items match disjoint classes of characters, so every greedy item takes its whole run
  and giving back characters never helps.  \<open>rrsig_match s\<close> is the match at the start
  of \<open>s\<close>: the group and the length of the matched text.  \<open>re_findall_rrsig\<close> is
  \<^verbatim>\<open>re.findall\<close>: the groups of the matches from left to right, each search starting
  where the last match ended; \<open>skip\<close> counts the characters of the last match that
  are still to be passed.
\<close>

definition rrsig_match :: "string \<Rightarrow> (string \<times> nat) option" where
  "rrsig_match s =
     (case s of
        [] \<Rightarrow> None
      | c # r0 \<Rightarrow>
          (let r1 = drop 5 r0;
               r2 = dropWhile is_space r1;
               r3 = drop 3 r2;
               r4 = dropWhile is_space r3;
               r5 = dropWhile is_digit r4;
               r6 = dropWhile is_space r5;
               r7 = dropWhile is_digit r6;
               r8 = drop 1 r7;
               r9 = dropWhile is_digit r8;
               r10 = dropWhile is_space r9
           in if \<not> is_space c \<or> \<not> startswith r0 ''RRSIG'' then None
              else if r2 = r1 \<or> \<not> startswith r2 ''SOA'' then None
              else if r4 = r3 \<or> r5 = r4 \<or> r6 = r5 \<or> r7 = r6 then None
              else if r7 = [] \<or> \<not> is_space (hd r7) \<or> r9 = r8 \<or> r10 = r9 then None
              else if length (takeWhile is_digit r10) < 14 then None
              else Some (take 14 r10, length s - length r10 + 14)))"

fun findall_rrsig_from :: "nat \<Rightarrow> string \<Rightarrow> string list" where
  "findall_rrsig_from skip [] = []"
| "findall_rrsig_from skip (c # cs) =
     (if 0 < skip then findall_rrsig_from (skip - 1) cs
      else (case rrsig_match (c # cs) of
              None \<Rightarrow> findall_rrsig_from 0 cs
            | Some (expiration, n) \<Rightarrow> expiration # findall_rrsig_from (n - 1) cs))"

definition re_findall_rrsig :: "string \<Rightarrow> string list" where
  "re_findall_rrsig signed_zone = findall_rrsig_from 0 signed_zone"

text \<open>
  Lines 269-290: whether the serial number has to move although nothing else has
  changed.  \<open>now\<close> is the clock as line 288 reads it.  \<^verbatim>\<open>min\<close> of a list of strings
  is the least one in the lexicographic order of Python, which is the order of
  \<^typ>\<open>string\<close> here.
\<close>

definition force_bump :: "fs \<Rightarrow> string \<Rightarrow> datetime \<Rightarrow> error + bool" where
  "force_bump fs zonefile now =
     (case fs (zonefile @ ''.signed'') of
        None \<Rightarrow> Inr True
      | Some signed_zone \<Rightarrow>
          (let expiration_times = re_findall_rrsig signed_zone
           in if length expiration_times = 0 then Inr True
              else (case strptime (min_list expiration_times) of
                      Inl e \<Rightarrow> Inl e
                    | Inr expiration_time \<Rightarrow>
                        Inr (microseconds expiration_time - microseconds now < timedelta_days 3))))"

text \<open>
  The pattern \<^verbatim>\<open>(\d+)\s*;\s*serial number\<close> of line 299.  \<open>serial_match s\<close> is the
  match at the start of \<open>s\<close>: the group and the whole matched text.
  \<open>re_search_serial\<close> is \<^verbatim>\<open>re.search\<close>, the match at the leftmost position that
  has one.
\<close>

definition serial_match :: "string \<Rightarrow> (string \<times> string) option" where
  "serial_match s =
     (let digits = takeWhile is_digit s;
          r1 = dropWhile is_digit s;
          space1 = takeWhile is_space r1;
          r2 = dropWhile is_space r1;
          r3 = drop 1 r2;
          space2 = takeWhile is_space r3;
          r4 = dropWhile is_space r3
      in if digits = [] \<or> \<not> startswith r2 '';'' \<or> \<not> startswith r4 ''serial number'' then None
         else Some (digits, digits @ space1 @ '';'' @ space2 @ ''serial number''))"

fun re_search_serial :: "string \<Rightarrow> (string \<times> string) option" where
  "re_search_serial [] = None"
| "re_search_serial (c # cs) =
     (case serial_match (c # cs) of
        Some m \<Rightarrow> Some m
      | None \<Rightarrow> re_search_serial cs)"

text \<open>
  \<open>write_nsd_zone\<close>, lines 233-324.  The result is the value returned, or the
  exception raised, and the files afterwards.  \<open>now1\<close> and \<open>now2\<close> are the clock as
  read at line 288 and at line 293.  The comparison of line 315 is one of strings.
\<close>

definition write_nsd_zone ::
  "string \<Rightarrow> string \<Rightarrow> rr list \<Rightarrow> env \<Rightarrow> datetime \<Rightarrow> datetime \<Rightarrow> fs \<Rightarrow> (error + bool) \<times> fs" where
  "write_nsd_zone domain zonefile records env now1 now2 fs =
     (let zone = zone_text domain records env
      in case force_bump fs zonefile now1 of
           Inl e \<Rightarrow> (Inl e, fs)
         | Inr bump \<Rightarrow>
             (let serial = strftime_serial now2;
                  write = (\<lambda>serial. (Inr True, fs(zonefile \<mapsto> replace ''__SERIAL__'' serial zone)))
              in case fs zonefile of
                   None \<Rightarrow> write serial
                 | Some existing_zone \<Rightarrow>
                     (case re_search_serial existing_zone of
                        None \<Rightarrow> write serial
                      | Some (existing_serial, matched) \<Rightarrow>
                          if zone = replace matched ''__SERIAL__     ; serial number'' existing_zone
                             \<and> \<not> bump
                          then (Inr False, fs)
                          else if existing_serial \<ge> serial
                               then write (str_of_nat (int_of_str existing_serial + 1))
                               else write serial)))"

subsection \<open>Concrete settings used in the examples\<close>

definition env1 :: env where
  "env1 = \<lparr>PRIMARY_HOSTNAME = ''box.example.org'', PUBLIC_IP = ''1.2.3.4'', PUBLIC_IPV6 = None,
            STORAGE_ROOT = ''/home/user-data''\<rparr>"

definition env0 :: env where
  "env0 = \<lparr>PRIMARY_HOSTNAME = ''a.example'', PUBLIC_IP = ''1.2.3.4'', PUBLIC_IPV6 = None,
            STORAGE_ROOT = ''/home/user-data''\<rparr>"

text \<open>
  Stand-ins for the two functions of the module utils in the examples: a file name
  equal to the domain name, and a \<^verbatim>\<open>sort_domains\<close> that keeps the order it is given.
\<close>

definition plain_name :: "string \<Rightarrow> string" where
  "plain_name domain = domain"

definition keep_order :: "string list \<Rightarrow> env \<Rightarrow> string list" where
  "keep_order domains env = domains"

text \<open>
  A clock reading, a line of a signed zone whose signature of the SOA record expires at
  the given time, a zone file name and a list of records.
\<close>

definition now0 :: datetime where
  "now0 = \<lparr>year = 2024, month = 6, day = 1, hour = 12, minute = 0, second = 0, microsecond = 0\<rparr>"


definition zf0 :: string where
  "zf0 = ''/etc/nsd/zones/example.com.txt''"

definition recs0 :: "rr list" where
  "recs0 = [(None, ''A'', ''1.2.3.4''), (Some ''www'', ''A'', ''1.2.3.4'')]"

text \<open>
  The zone file that \<open>write_nsd_zone\<close> writes for these records on that day, and the
  files after it: the zone file and a signed zone with the given expiration.
\<close>

definition written0 :: string where
  "written0 = replace ''__SERIAL__'' ''2024060100'' (zone_text ''example.com'' recs0 env1)"


section \<open>Properties\<close>

subsection \<open>Zone apex selection\<close>

lemma endswith_suffix: "endswith s suf \<longleftrightarrow> suffix suf s"
  unfolding endswith_def
  by (metis append_eq_conv_conj append_take_drop_id diff_add_inverse2 length_append suffix_def suffix_length_le)

lemma covers_refl: "covers a a" by (simp add: covers_def)

lemma covers_length: "covers a x \<Longrightarrow> length a \<le> length x"
  by (auto simp: covers_def endswith_suffix dest!: suffix_length_le)

lemma strict_sub_length: "endswith x (''.'' @ a) \<Longrightarrow> length a < length x"
  by (auto simp: endswith_suffix dest!: suffix_length_le)

lemma dot_suffix_cases:
  assumes "suffix (''.'' @ a) (''.'' @ b)" "a \<noteq> b"
  shows "suffix (''.'' @ a) b"
proof -
  from assms(1) obtain zs where zs: "''.'' @ b = zs @ ''.'' @ a" by (auto simp: suffix_def)
  show ?thesis
  proof (cases zs)
    case Nil with zs assms(2) show ?thesis by simp
  next
    case (Cons z zs') with zs have "b = zs' @ ''.'' @ a" by simp
    then show ?thesis by (auto simp: suffix_def)
  qed
qed

lemma covers_two:
  assumes "covers a x" "covers b x" "a \<noteq> b"
  shows "endswith a (''.'' @ b) \<or> endswith b (''.'' @ a)"
proof -
  consider "x = a" "endswith x (''.'' @ b)" | "x = b" "endswith x (''.'' @ a)"
    | "endswith x (''.'' @ a)" "endswith x (''.'' @ b)"
    using assms by (auto simp: covers_def)
  then show ?thesis
  proof cases
    case 1 then show ?thesis by simp
  next
    case 2 then show ?thesis by simp
  next
    case 3
    then have "suffix (''.'' @ a) (''.'' @ b) \<or> suffix (''.'' @ b) (''.'' @ a)"
      unfolding endswith_suffix by (rule suffix_same_cases)
    then show ?thesis
      using dot_suffix_cases[of a b] dot_suffix_cases[of b a] assms(3)
      unfolding endswith_suffix by blast
  qed
qed

lemma covers_trans: "covers a b \<Longrightarrow> covers b c \<Longrightarrow> covers a c"
  unfolding covers_def endswith_suffix
  by (metis suffix_order.order_trans suffix_ConsI suffix_appendI append_Cons append_Nil suffix_def append.assoc)

definition antichain :: "string set \<Rightarrow> bool" where
  "antichain A = (\<forall>a\<in>A. \<forall>b\<in>A. \<not> endswith a (''.'' @ b))"

lemma loop_subset: "set (zone_domains_loop acc xs) \<subseteq> set acc \<union> set xs"
  by (induction acc xs rule: zone_domains_loop.induct) auto

lemma loop_acc: "set acc \<subseteq> set (zone_domains_loop acc xs)"
  by (induction acc xs rule: zone_domains_loop.induct) auto

lemma loop_distinct: "distinct acc \<Longrightarrow> distinct (zone_domains_loop acc xs)"
  by (induction acc xs rule: zone_domains_loop.induct) auto

lemma loop_covers: "x \<in> set xs \<Longrightarrow> \<exists>a\<in>set (zone_domains_loop acc xs). covers a x"
proof (induction acc xs rule: zone_domains_loop.induct)
  case (1 zs) then show ?case by simp
next
  case (2 zs d rest)
  show ?case
  proof (cases "x = d")
    case True
    show ?thesis
    proof (cases "\<exists>e \<in> set zs. endswith d (''.'' @ e)")
      case True
      then obtain e where "e \<in> set zs" "endswith d (''.'' @ e)" by blast
      with loop_acc[of zs rest] \<open>x = d\<close> True show ?thesis
        by (auto simp: covers_def)
    next
      case False
      with loop_acc[of "List.insert d zs" rest] \<open>x = d\<close> show ?thesis
        by (auto simp: covers_def)
    qed
  next
    case False
    with 2 show ?thesis by (auto split: if_splits)
  qed
qed

lemma loop_antichain:
  "antichain (set acc) \<Longrightarrow> sorted (map length xs) \<Longrightarrow> \<forall>a\<in>set acc. \<forall>x\<in>set xs. length a \<le> length x
   \<Longrightarrow> antichain (set (zone_domains_loop acc xs))"
proof (induction acc xs rule: zone_domains_loop.induct)
  case (1 zs) then show ?case by simp
next
  case (2 zs d rest)
  show ?case
  proof (cases "\<exists>e \<in> set zs. endswith d (''.'' @ e)")
    case True
    with 2 show ?thesis by auto
  next
    case False
    have "antichain (set (List.insert d zs))"
      using 2(3) False 2(5) strict_sub_length[of _ d] strict_sub_length[of d d]
      unfolding antichain_def by (auto; fastforce)
    moreover have "\<forall>a\<in>set (List.insert d zs). \<forall>x\<in>set rest. length a \<le> length x"
      using 2(4,5) by auto
    ultimately show ?thesis using 2 False by auto
  qed
qed


lemma index_None: "index xs x = None \<longleftrightarrow> x \<notin> set xs"
  by (induction xs) auto

lemma zone_domains_props:
  assumes "distinct domains"
  defines "zd \<equiv> zone_domains_loop [] (sort_key length domains)"
  shows "distinct zd" "set zd \<subseteq> set domains" "antichain (set zd)"
    "\<forall>x\<in>set domains. \<exists>a\<in>set zd. covers a x"
proof -
  show "distinct zd" unfolding zd_def by (rule loop_distinct) simp
  show "set zd \<subseteq> set domains" unfolding zd_def using loop_subset[of "[]" "sort_key length domains"] by simp
  show "antichain (set zd)" unfolding zd_def
    by (rule loop_antichain) (simp_all add: antichain_def)
  show "\<forall>x\<in>set domains. \<exists>a\<in>set zd. covers a x"
    unfolding zd_def using loop_covers[of _ "sort_key length domains" "[]"] by simp
qed

lemma antichain_unique:
  assumes "antichain A" "a \<in> A" "b \<in> A" "covers a x" "covers b x"
  shows "a = b"
  using covers_two[OF assms(4,5)] assms(1,2,3) unfolding antichain_def by blast

lemma antichain_not_apex:
  assumes "antichain A" "\<forall>x\<in>D. \<exists>a\<in>A. covers a x" "x \<in> D" "y \<in> D" "endswith x (''.'' @ y)"
  shows "x \<notin> A"
proof
  assume xA: "x \<in> A"
  from assms(2,4) obtain c where c: "c \<in> A" "covers c y" by blast
  have "covers y x" using assms(5) by (simp add: covers_def)
  with c have "covers c x" using covers_trans by blast
  with xA c assms(1) have "c = x" using antichain_unique[of A c x x] covers_refl by blast
  with c(2) have "length x \<le> length y" using covers_length by blast
  with assms(5) show False using strict_sub_length by fastforce
qed

text \<open>
  Claim C4 says that for a domain set including a.example, b.example and sub.a.example
  the apexes are exactly a.example and b.example.  The set of in-use domains always
  holds the primary hostname too (line 16): with the three names as mail domains and
  the primary hostname box.example.org, the zones are those of a.example, b.example
  and box.example.org.
\<close>

theorem get_dns_zones_primary_hostname_apex: "iteration_of [''a.example'', ''b.example'', ''sub.a.example'', ''box.example.org'']
     (get_dns_domains {''a.example'', ''b.example'', ''sub.a.example''} env1)
   \<and> get_dns_zones plain_name keep_order remdups
         [''a.example'', ''b.example'', ''sub.a.example'', ''box.example.org''] env1
       = Inr [(''box.example.org'', ''box.example.org.txt''), (''b.example'', ''b.example.txt''),
              (''a.example'', ''a.example.txt'')]"
proof (rule conjI)
  show "iteration_of [''a.example'', ''b.example'', ''sub.a.example'', ''box.example.org'']
     (get_dns_domains {''a.example'', ''b.example'', ''sub.a.example''} env1)"
    by (auto simp: iteration_of_def get_dns_domains_def env1_def)
  show "get_dns_zones plain_name keep_order remdups
         [''a.example'', ''b.example'', ''sub.a.example'', ''box.example.org''] env1
       = Inr [(''box.example.org'', ''box.example.org.txt''), (''b.example'', ''b.example.txt''),
              (''a.example'', ''a.example.txt'')]"
    by (simp add: get_dns_zones_def endswith_def plain_name_def keep_order_def)
qed

text \<open>
  Claim C4 as amended.  For every enumeration of the in-use domains (the mail domains
  and the primary hostname), every iteration order of the set \<^verbatim>\<open>zone_domains\<close>, and
  every \<^verbatim>\<open>sort_domains\<close> that keeps the names it is given, \<open>get_dns_zones\<close> returns a
  list of zones with pairwise different apexes, all of them in-use domains, such that
  every in-use domain is covered by exactly one returned apex (itself or an ancestor
  at a dot boundary) and no returned apex is a strict subdomain of another one.  When
  a.example and sub.a.example are in use, sub.a.example is not an apex; when the in-use
  domains are exactly a.example, b.example and sub.a.example, the apexes are exactly
  a.example and b.example.
\<close>

theorem get_dns_zones_apexes:
  assumes it: "iteration_of domains (get_dns_domains mail_domains env)"
      and so: "\<forall>xs. set xs \<subseteq> set (sort_domains xs env)"
      and si: "\<forall>xs. distinct xs \<longrightarrow> iteration_of (set_iteration xs) (set xs)"
  shows "\<exists>zonefiles. get_dns_zones safe_domain_name sort_domains set_iteration domains env = Inr zonefiles
     \<and> distinct (map fst zonefiles)
     \<and> fst ` set zonefiles \<subseteq> get_dns_domains mail_domains env
     \<and> (\<forall>x \<in> get_dns_domains mail_domains env. \<exists>!a. a \<in> fst ` set zonefiles \<and> covers a x)
     \<and> (\<forall>a \<in> fst ` set zonefiles. \<forall>b \<in> fst ` set zonefiles. \<not> endswith a (''.'' @ b))
     \<and> ({''a.example'', ''sub.a.example''} \<subseteq> get_dns_domains mail_domains env
          \<longrightarrow> ''sub.a.example'' \<notin> fst ` set zonefiles)
     \<and> (get_dns_domains mail_domains env = {''a.example'', ''b.example'', ''sub.a.example''}
          \<longrightarrow> fst ` set zonefiles = {''a.example'', ''b.example''})"
proof -
  define zd where "zd = zone_domains_loop [] (sort_key length domains)"
  define zi where "zi = set_iteration zd"
  define zf where "zf = map (\<lambda>domain. (domain, safe_domain_name domain @ ''.txt'')) zi"
  define zo where "zo = sort_domains (map fst zf) env"
  define res where "res = sort_key (\<lambda>zone. the (index zo (fst zone))) zf"
  from it have dd: "distinct domains" and sd: "set domains = get_dns_domains mail_domains env"
    by (simp_all add: iteration_of_def)
  note P = zone_domains_props[OF dd, folded zd_def]
  from si P(1) have "iteration_of zi (set zd)" unfolding zi_def by blast
  then have zi: "distinct zi" "set zi = set zd" by (simp_all add: iteration_of_def)
  have fz: "map fst zf = zi" by (simp add: zf_def comp_def)
  have "set zi \<subseteq> set zo" using so fz unfolding zo_def by metis
  then have ok: "\<forall>zone \<in> set zf. index zo (fst zone) \<noteq> None"
    using fz by (auto simp: index_None zf_def)
  have eq: "get_dns_zones safe_domain_name sort_domains set_iteration domains env = Inr res"
    using ok unfolding get_dns_zones_def Let_def zd_def[symmetric] zi_def[symmetric] zf_def[symmetric]
      zo_def[symmetric] res_def
    by simp
  have "fst ` set res = set zi" unfolding res_def using fz by (metis set_map set_sort)
  with zi(2) have sres: "fst ` set res = set zd" by simp
  have "mset (map fst res) = mset zi" unfolding res_def using fz by (metis mset_map mset_sort)
  then have dres: "distinct (map fst res)" using zi(1) by (metis mset_eq_imp_distinct_iff)
  have sub: "fst ` set res \<subseteq> get_dns_domains mail_domains env" using sres P(2) sd by simp
  have cov: "\<forall>x \<in> get_dns_domains mail_domains env. \<exists>!a. a \<in> fst ` set res \<and> covers a x"
  proof
    fix x assume "x \<in> get_dns_domains mail_domains env"
    with P(4) sd obtain a where a: "a \<in> set zd" "covers a x" by blast
    show "\<exists>!a. a \<in> fst ` set res \<and> covers a x"
    proof (rule ex1I[of _ a])
      show "a \<in> fst ` set res \<and> covers a x" using a sres by simp
    next
      fix b assume "b \<in> fst ` set res \<and> covers b x"
      then show "b = a" using antichain_unique[OF P(3), of b a x] a sres by simp
    qed
  qed
  have anti: "\<forall>a \<in> fst ` set res. \<forall>b \<in> fst ` set res. \<not> endswith a (''.'' @ b)"
    using P(3) sres by (simp add: antichain_def)
  have es: "endswith ''sub.a.example'' (''.'' @ ''a.example'')" by (simp add: endswith_def)
  have nsub: "''sub.a.example'' \<notin> fst ` set res"
    if D: "{''a.example'', ''sub.a.example''} \<subseteq> get_dns_domains mail_domains env"
    using antichain_not_apex[OF P(3) P(4), of "''sub.a.example''" "''a.example''"] es sd D sres
    by simp
  have ex: "fst ` set res = {''a.example'', ''b.example''}"
    if D: "get_dns_domains mail_domains env = {''a.example'', ''b.example'', ''sub.a.example''}"
  proof -
    have n: "''sub.a.example'' \<notin> set zd"
      using antichain_not_apex[OF P(3) P(4), of "''sub.a.example''" "''a.example''"] es sd D by simp
    have ca: "\<not> covers ''b.example'' ''a.example''" "\<not> covers ''a.example'' ''b.example''"
      by (simp_all add: covers_def endswith_def)
    from P(4) sd D obtain a where a: "a \<in> set zd" "covers a ''a.example''" by blast
    from P(4) sd D obtain b where b: "b \<in> set zd" "covers b ''b.example''" by blast
    from a n P(2) sd D ca have "a = ''a.example''" by (auto simp: covers_refl)
    moreover from b n P(2) sd D ca have "b = ''b.example''" by (auto simp: covers_refl)
    ultimately show ?thesis using a b n P(2) sd D sres by auto
  qed
  have nsub': "{''a.example'', ''sub.a.example''} \<subseteq> get_dns_domains mail_domains env
      \<longrightarrow> ''sub.a.example'' \<notin> fst ` set res"
    by (rule impI) (rule nsub)
  have ex': "get_dns_domains mail_domains env = {''a.example'', ''b.example'', ''sub.a.example''}
      \<longrightarrow> fst ` set res = {''a.example'', ''b.example''}"
    by (rule impI) (rule ex)
  show ?thesis by (intro exI[of _ res] conjI eq dres sub cov anti nsub' ex')
qed

theorem get_dns_zones_apexes_witness:
  "iteration_of [''sub.a.example'', ''b.example'', ''a.example'']
     (get_dns_domains {''a.example'', ''b.example'', ''sub.a.example''} env0)
   \<and> (\<exists>zonefiles.
        get_dns_zones plain_name keep_order remdups [''sub.a.example'', ''b.example'', ''a.example''] env0
          = Inr zonefiles
        \<and> ''sub.a.example'' \<notin> fst ` set zonefiles
        \<and> fst ` set zonefiles = {''a.example'', ''b.example''})"
proof -
  have D: "get_dns_domains {''a.example'', ''b.example'', ''sub.a.example''} env0
             = {''a.example'', ''b.example'', ''sub.a.example''}"
    by (auto simp: get_dns_domains_def env0_def)
  have h1: "iteration_of [''sub.a.example'', ''b.example'', ''a.example'']
              (get_dns_domains {''a.example'', ''b.example'', ''sub.a.example''} env0)"
    unfolding D by (auto simp: iteration_of_def)
  have h2: "\<forall>xs. set xs \<subseteq> set (keep_order xs env0)" by (simp add: keep_order_def)
  have h3: "\<forall>xs. distinct xs \<longrightarrow> iteration_of (remdups xs) (set xs)" by (simp add: iteration_of_def)
  have D2: "{''a.example'', ''sub.a.example''}
      \<subseteq> get_dns_domains {''a.example'', ''b.example'', ''sub.a.example''} env0"
    unfolding D by simp
  from get_dns_zones_apexes[where sort_domains=keep_order and set_iteration=remdups
      and safe_domain_name=plain_name, OF h1 h2 h3] obtain zonefiles where
    z: "get_dns_zones plain_name keep_order remdups [''sub.a.example'', ''b.example'', ''a.example''] env0
          = Inr zonefiles"
    and n: "{''a.example'', ''sub.a.example''}
              \<subseteq> get_dns_domains {''a.example'', ''b.example'', ''sub.a.example''} env0
            \<longrightarrow> ''sub.a.example'' \<notin> fst ` set zonefiles"
    and i: "get_dns_domains {''a.example'', ''b.example'', ''sub.a.example''} env0
              = {''a.example'', ''b.example'', ''sub.a.example''}
            \<longrightarrow> fst ` set zonefiles = {''a.example'', ''b.example''}"
    by meson
  from n D2 have n': "''sub.a.example'' \<notin> fst ` set zonefiles" by (rule mp)
  from i D have "fst ` set zonefiles = {''a.example'', ''b.example''}" by (rule mp)
  with z n' h1 show ?thesis by (intro conjI exI[of _ zonefiles])
qed

subsection \<open>Record builder\<close>

lemma build_zone_records_leaf:
  "build_zone_records c fs d [] add env w =
     (case primary_records c d env of
        Inl e \<Rightarrow> Inl e
      | Inr primary \<Rightarrow>
          add_dkim fs env (add_defaults env (add_custom d (builtin_records env w @ primary) add)))"
  by (subst build_zone_records.simps) (simp split: sum.splits)

lemma build_zone_records_unfold:
  "build_zone_records c fs d subs add env w =
     (case collect (map (\<lambda>subdomain.
              case build_zone c fs subdomain [] [] env False of
                Inl e \<Rightarrow> Inl e
              | Inr children \<Rightarrow>
                  Inr (map (requalify (take (length subdomain - length (''.'' @ d)) subdomain)) children))
            subs) of
        Inl e \<Rightarrow> Inl e
      | Inr sub_records \<Rightarrow>
          (case primary_records c d env of
             Inl e \<Rightarrow> Inl e
           | Inr primary \<Rightarrow>
               add_dkim fs env
                 (add_defaults env (add_custom d (builtin_records env w @ sub_records @ primary) add))))"
proof -
  have "(\<lambda>subdomain. case build_zone_records c fs subdomain [] [] env False of
                Inl e \<Rightarrow> Inl e
              | Inr children \<Rightarrow>
                  Inr (map (requalify (take (length subdomain - length (''.'' @ d)) subdomain))
                         (sort_key sort_key_of children)))
      = (\<lambda>subdomain. case build_zone c fs subdomain [] [] env False of
                Inl e \<Rightarrow> Inl e
              | Inr children \<Rightarrow>
                  Inr (map (requalify (take (length subdomain - length (''.'' @ d)) subdomain)) children))"
    by (rule ext) (simp add: build_zone_def split: sum.splits)
  then show ?thesis by (subst build_zone_records.simps) simp
qed

lemmas bz_eval = build_zone_def build_zone_records_leaf builtin_records_def primary_records_def
  add_defaults_def add_dkim_def has_rec_def has_ipv6_def endswith_def os_path_join_def
  startswith_def sort_key_of_def requalify_def build_tlsa_record_def Let_def

text \<open>
  Claim C7 says that the MX record and the SPF TXT record are emitted only for a
  top-level zone.  The source guards only the two NS records with \<^verbatim>\<open>with_ns\<close>
  (lines 132-134); lines 137 and 141 run in every call.  The records of a subdomain
  expansion (\<^verbatim>\<open>with_ns=False\<close>, as in line 147) hold both.
\<close>

theorem build_zone_subdomain_has_mx_spf: "build_zone (Inr ''00'') Map.empty ''sub.example.com'' [] [] env1 False
  = Inr [(None, ''MX'', ''10 box.example.org.''), (None, ''TXT'', dquote @ ''v=spf1 mx -all'' @ dquote),
         (None, ''A'', ''1.2.3.4''), (Some ''www'', ''A'', ''1.2.3.4'')]"
  by (simp add: bz_eval env1_def)

text \<open>
  Claim C5 says that an override is appended only if no record with its (qname, type)
  exists already.  Line 176 calls \<^verbatim>\<open>has_rec(qname, value)\<close>: it compares the record
  types with the override's value, not with its type, and a dictionary equals no record
  type.  With the override \<^verbatim>\<open>{example.com: {MX: "10 mx.other.net."}}\<close> the zone gets a
  second MX record at the apex.
\<close>

lemma has_rec_Dict: "\<not> has_rec records qname (Dict items)"
  by (simp add: has_rec_def)

theorem build_zone_override_duplicates_mx: "build_zone (Inr ''00'') Map.empty ''example.com'' [] [(''example.com'', Dict [(''MX'', ''10 mx.other.net.'')])] env1 True
  = Inr [(None, ''NS'', ''ns1.box.example.org.''), (None, ''NS'', ''ns2.box.example.org.''),
         (None, ''MX'', ''10 box.example.org.''), (None, ''TXT'', dquote @ ''v=spf1 mx -all'' @ dquote),
         (None, ''MX'', ''10 mx.other.net.''), (None, ''A'', ''1.2.3.4''), (Some ''www'', ''A'', ''1.2.3.4'')]"
  by (simp add: bz_eval env1_def)

lemma collect_Inr_mem:
  "collect xs = Inr ys \<Longrightarrow> r \<in> set ys \<Longrightarrow> \<exists>zs. Inr zs \<in> set xs \<and> r \<in> set zs"
proof (induction xs arbitrary: ys rule: collect.induct)
  case 1 then show ?case by simp
next
  case (2 e rest) then show ?case by simp
next
  case (3 xs rest)
  show ?case
  proof (cases "collect rest")
    case (Inl e) with 3(2) show ?thesis by simp
  next
    case (Inr x2)
    with 3(2) have ys: "ys = xs @ x2" by simp
    show ?thesis
    proof (cases "r \<in> set xs")
      case True then show ?thesis by auto
    next
      case False
      with 3(3) ys have "r \<in> set x2" by simp
      from 3(1)[OF Inr this] show ?thesis by auto
    qed
  qed
qed

lemma add_custom_step:
  "\<exists>zs. add_custom d rs (a # add) = add_custom d (rs @ zs) add"
proof (cases a)
  case (Pair qname v)
  show ?thesis
  proof (cases v)
    case (Str x)
    show ?thesis unfolding Pair Str
      by (simp add: Let_def) (metis append_Nil2)
  next
    case (Dict x)
    show ?thesis unfolding Pair Dict
      by (simp add: Let_def) (metis append_Nil2)
  qed
qed

lemma add_custom_append: "\<exists>ys. add_custom d rs add = rs @ ys"
proof (induction add arbitrary: rs)
  case Nil then show ?case by simp
next
  case (Cons a add)
  from add_custom_step[of d rs a add] obtain zs where
    z: "add_custom d rs (a # add) = add_custom d (rs @ zs) add" by blast
  from Cons[of "rs @ zs"] obtain ys where "add_custom d (rs @ zs) add = (rs @ zs) @ ys" by blast
  with z show ?case by simp
qed

lemma add_custom_keeps: "set rs \<subseteq> set (add_custom d rs add)"
  using add_custom_append[of d rs add] by auto

lemma add_defaults_keeps: "set rs \<subseteq> set (add_defaults env rs)"
  by (auto simp: add_defaults_def Let_def)

lemma add_defaults_new:
  "r \<in> set (add_defaults env rs) \<Longrightarrow> r \<in> set rs \<or> fst (snd r) = ''A'' \<or> fst (snd r) = ''AAAA''"
  by (auto simp: add_defaults_def Let_def split: if_splits)

lemma add_dkim_keeps: "add_dkim fs env rs = Inr rs' \<Longrightarrow> set rs \<subseteq> set rs'"
  by (auto simp: add_dkim_def split: option.splits prod.splits)

lemma add_dkim_new:
  "add_dkim fs env rs = Inr rs' \<Longrightarrow> r \<in> set rs' \<Longrightarrow> r \<in> set rs \<or> fst (snd r) = ''TXT''"
  by (auto simp: add_dkim_def split: option.splits prod.splits)

lemma primary_records_types:
  "primary_records c d env = Inr p \<Longrightarrow> r \<in> set p \<Longrightarrow> fst (snd r) = ''A'' \<or> fst (snd r) = ''TLSA''"
  by (auto simp: primary_records_def split: if_splits sum.splits)

lemma builtin_records_mem:
  "(None, ''MX'', ''10 '' @ PRIMARY_HOSTNAME env @ ''.'') \<in> set (builtin_records env w)"
  "(None, ''TXT'', dquote @ ''v=spf1 mx -all'' @ dquote) \<in> set (builtin_records env w)"
  "w \<Longrightarrow> (None, ''NS'', ''ns1.'' @ PRIMARY_HOSTNAME env @ ''.'') \<in> set (builtin_records env w)"
  "w \<Longrightarrow> (None, ''NS'', ''ns2.'' @ PRIMARY_HOSTNAME env @ ''.'') \<in> set (builtin_records env w)"
  by (simp_all add: builtin_records_def)

lemma builtin_records_no_ns:
  "r \<in> set (builtin_records env False) \<Longrightarrow> fst (snd r) \<noteq> ''NS''"
  by (auto simp: builtin_records_def)

lemma requalify_rtype: "fst (snd (requalify q r)) = fst (snd r)"
  by (simp add: requalify_def split: prod.splits)

lemma build_zone_set:
  assumes "build_zone c fs d subs add env w = Inr records"
  shows "\<exists>appended. build_zone_records c fs d subs add env w = Inr appended \<and> set records = set appended"
  using assms by (auto simp: build_zone_def split: sum.splits)

lemma build_zone_records_builtin:
  assumes "build_zone_records c fs d subs add env w = Inr appended"
  shows "set (builtin_records env w) \<subseteq> set appended"
proof -
  from assms obtain sub_records primary where
    a: "add_dkim fs env (add_defaults env (add_custom d (builtin_records env w @ sub_records @ primary) add))
          = Inr appended"
    by (subst (asm) build_zone_records_unfold) (auto split: sum.splits)
  have "set (builtin_records env w) \<subseteq> set (builtin_records env w @ sub_records @ primary)" by simp
  also have "\<dots> \<subseteq> set (add_custom d (builtin_records env w @ sub_records @ primary) add)"
    by (rule add_custom_keeps)
  also have "\<dots> \<subseteq> set (add_defaults env (add_custom d (builtin_records env w @ sub_records @ primary) add))"
    by (rule add_defaults_keeps)
  also have "\<dots> \<subseteq> set appended" using a by (rule add_dkim_keeps)
  finally show ?thesis .
qed

lemma leaf_no_ns:
  assumes "build_zone c fs s [] [] env False = Inr records" "r \<in> set records"
  shows "fst (snd r) \<noteq> ''NS''"
proof -
  from build_zone_set[OF assms(1)] obtain appended where
    ap: "build_zone_records c fs s [] [] env False = Inr appended" and se: "set records = set appended"
    by blast
  from ap obtain primary where p: "primary_records c s env = Inr primary"
    and a: "add_dkim fs env (add_defaults env (builtin_records env False @ primary)) = Inr appended"
    by (subst (asm) build_zone_records_leaf) (auto split: sum.splits)
  from assms(2) se have "r \<in> set appended" by simp
  with a have "r \<in> set (add_defaults env (builtin_records env False @ primary)) \<or> fst (snd r) = ''TXT''"
    using add_dkim_new by blast
  then have "r \<in> set (builtin_records env False) \<or> r \<in> set primary
      \<or> fst (snd r) = ''A'' \<or> fst (snd r) = ''AAAA'' \<or> fst (snd r) = ''TXT''"
    using add_defaults_new[of r env "builtin_records env False @ primary"] by auto
  then show ?thesis
    using builtin_records_no_ns[of r env] primary_records_types[OF p, of r] by auto
qed

text \<open>
  Claim C7 as amended.  Every record list returned by \<open>build_zone\<close> holds the MX
  record and the SPF TXT record; it holds the two NS records when \<^verbatim>\<open>with_ns\<close> is
  true; and in a subdomain expansion (\<^verbatim>\<open>with_ns\<close> false, no overrides) it holds no
  NS record.
\<close>

theorem build_zone_ns_only_top_level:
  assumes "build_zone c fs d subs add env with_ns = Inr records"
  shows "(None, ''MX'', ''10 '' @ PRIMARY_HOSTNAME env @ ''.'') \<in> set records
       \<and> (None, ''TXT'', dquote @ ''v=spf1 mx -all'' @ dquote) \<in> set records
       \<and> (with_ns \<longrightarrow> (None, ''NS'', ''ns1.'' @ PRIMARY_HOSTNAME env @ ''.'') \<in> set records
                    \<and> (None, ''NS'', ''ns2.'' @ PRIMARY_HOSTNAME env @ ''.'') \<in> set records)
       \<and> (\<not> with_ns \<and> add = [] \<longrightarrow> (\<forall>r \<in> set records. fst (snd r) \<noteq> ''NS''))"
proof -
  from build_zone_set[OF assms] obtain appended where
    ap: "build_zone_records c fs d subs add env with_ns = Inr appended" and se: "set records = set appended"
    by blast
  note b = build_zone_records_builtin[OF ap]
  have 1: "(None, ''MX'', ''10 '' @ PRIMARY_HOSTNAME env @ ''.'') \<in> set records"
    using b builtin_records_mem(1)[of env with_ns] se by blast
  have 2: "(None, ''TXT'', dquote @ ''v=spf1 mx -all'' @ dquote) \<in> set records"
    using b builtin_records_mem(2)[of env with_ns] se by blast
  have 3: "with_ns \<longrightarrow> (None, ''NS'', ''ns1.'' @ PRIMARY_HOSTNAME env @ ''.'') \<in> set records
                    \<and> (None, ''NS'', ''ns2.'' @ PRIMARY_HOSTNAME env @ ''.'') \<in> set records"
    using b builtin_records_mem(3,4)[of with_ns env] se by blast
  have 4: "\<forall>r \<in> set records. fst (snd r) \<noteq> ''NS''" if w: "\<not> with_ns" and ad: "add = []"
  proof
    fix r assume "r \<in> set records"
    then have ra: "r \<in> set appended" using se by simp
    from ap w ad obtain sub_records primary where
      co: "collect (map (\<lambda>subdomain.
              case build_zone c fs subdomain [] [] env False of
                Inl e \<Rightarrow> Inl e
              | Inr children \<Rightarrow>
                  Inr (map (requalify (take (length subdomain - length (''.'' @ d)) subdomain)) children))
            subs) = Inr sub_records"
      and p: "primary_records c d env = Inr primary"
      and a: "add_dkim fs env (add_defaults env (builtin_records env False @ sub_records @ primary))
                = Inr appended"
      by (subst (asm) build_zone_records_unfold) (auto split: sum.splits)
    from a ra have "r \<in> set (add_defaults env (builtin_records env False @ sub_records @ primary))
        \<or> fst (snd r) = ''TXT''"
      using add_dkim_new by blast
    then consider "r \<in> set (builtin_records env False)" | "r \<in> set sub_records" | "r \<in> set primary"
      | "fst (snd r) = ''A'' \<or> fst (snd r) = ''AAAA'' \<or> fst (snd r) = ''TXT''"
      using add_defaults_new[of r env "builtin_records env False @ sub_records @ primary"] by auto
    then show "fst (snd r) \<noteq> ''NS''"
    proof cases
      case 1 then show ?thesis by (rule builtin_records_no_ns)
    next
      case 2
      from collect_Inr_mem[OF co 2] obtain zs subdomain children where
        "build_zone c fs subdomain [] [] env False = Inr children"
        "r \<in> set (map (requalify (take (length subdomain - length (''.'' @ d)) subdomain)) children)"
        by (auto split: sum.splits)
      then show ?thesis using leaf_no_ns requalify_rtype by (metis (no_types, lifting) imageE list.set_map)
    next
      case 3 then show ?thesis using primary_records_types[OF p, of r] by auto
    next
      case 4 then show ?thesis by auto
    qed
  qed
  from 1 2 3 4 show ?thesis by blast
qed

theorem build_zone_ns_only_top_level_witness:
  "build_zone (Inr ''00'') Map.empty ''sub.example.com'' [''a.sub.example.com''] [] env1 False
     = Inr [(None, ''MX'', ''10 box.example.org.''), (None, ''TXT'', dquote @ ''v=spf1 mx -all'' @ dquote),
            (None, ''A'', ''1.2.3.4''),
            (Some ''a'', ''MX'', ''10 box.example.org.''),
            (Some ''a'', ''TXT'', dquote @ ''v=spf1 mx -all'' @ dquote),
            (Some ''a'', ''A'', ''1.2.3.4''), (Some ''www.a'', ''A'', ''1.2.3.4''),
            (Some ''www'', ''A'', ''1.2.3.4'')]
   \<and> ''NS'' \<notin> (\<lambda>r. fst (snd r)) ` set
         [(None, ''MX'', ''10 box.example.org.''), (None, ''TXT'', dquote @ ''v=spf1 mx -all'' @ dquote),
            (None, ''A'', ''1.2.3.4''),
            (Some ''a'', ''MX'', ''10 box.example.org.''),
            (Some ''a'', ''TXT'', dquote @ ''v=spf1 mx -all'' @ dquote),
            (Some ''a'', ''A'', ''1.2.3.4''), (Some ''www.a'', ''A'', ''1.2.3.4''),
            (Some ''www'', ''A'', ''1.2.3.4'')]"
proof -
  have e: "build_zone (Inr ''00'') Map.empty ''sub.example.com'' [''a.sub.example.com''] [] env1 False
     = Inr [(None, ''MX'', ''10 box.example.org.''), (None, ''TXT'', dquote @ ''v=spf1 mx -all'' @ dquote),
            (None, ''A'', ''1.2.3.4''),
            (Some ''a'', ''MX'', ''10 box.example.org.''),
            (Some ''a'', ''TXT'', dquote @ ''v=spf1 mx -all'' @ dquote),
            (Some ''a'', ''A'', ''1.2.3.4''), (Some ''www.a'', ''A'', ''1.2.3.4''),
            (Some ''www'', ''A'', ''1.2.3.4'')]"
    unfolding build_zone_def
    by (subst build_zone_records_unfold) (simp add: bz_eval env1_def)
  from build_zone_ns_only_top_level[OF e]
  have c: "''NS'' \<notin> (\<lambda>r. fst (snd r)) ` set
         [(None, ''MX'', ''10 box.example.org.''), (None, ''TXT'', dquote @ ''v=spf1 mx -all'' @ dquote),
            (None, ''A'', ''1.2.3.4''),
            (Some ''a'', ''MX'', ''10 box.example.org.''),
            (Some ''a'', ''TXT'', dquote @ ''v=spf1 mx -all'' @ dquote),
            (Some ''a'', ''A'', ''1.2.3.4''), (Some ''www.a'', ''A'', ''1.2.3.4''),
            (Some ''www'', ''A'', ''1.2.3.4'')]"
    by simp
  from e c show ?thesis by (rule conjI)
qed

subsection \<open>Order of the records\<close>

lemma split_nonempty: "split sep s \<noteq> []"
  by (cases s) (simp_all add: Let_def)

lemma sort_key_of_Nil: "sort_key_of r = [] \<longleftrightarrow> fst r = None"
  by (simp add: sort_key_of_def split_nonempty split: option.splits)

lemma sorted_bottom_first:
  fixes f :: "'a \<Rightarrow> 'b::linorder list"
  shows "sorted (map f xs) \<Longrightarrow> xs = filter (\<lambda>x. f x = []) xs @ filter (\<lambda>x. f x \<noteq> []) xs"
proof (induction xs)
  case Nil then show ?case by simp
next
  case (Cons x xs)
  then have IH: "xs = filter (\<lambda>x. f x = []) xs @ filter (\<lambda>x. f x \<noteq> []) xs"
    and le: "\<forall>y\<in>set xs. f x \<le> f y" by auto
  show ?case
  proof (cases "f x = []")
    case True with IH show ?thesis by simp
  next
    case False
    have "\<forall>y\<in>set xs. f y \<noteq> []"
    proof
      fix y assume "y \<in> set xs"
      with le have "f x \<le> f y" by blast
      with False show "f y \<noteq> []" by (metis le_Nil) 
    qed
    then have "filter (\<lambda>x. f x = []) xs = []" "filter (\<lambda>x. f x \<noteq> []) xs = xs"
      by (simp_all add: filter_empty_conv filter_id_conv)
    with False show ?thesis by simp
  qed
qed

lemma sort_key_apex_first:
  "sort_key sort_key_of xs
     = filter (\<lambda>r. fst r = None) xs @ filter (\<lambda>r. fst r \<noteq> None) (sort_key sort_key_of xs)"
proof -
  let ?s = "sort_key sort_key_of xs"
  have "?s = filter (\<lambda>r. sort_key_of r = []) ?s @ filter (\<lambda>r. sort_key_of r \<noteq> []) ?s"
    by (rule sorted_bottom_first) (rule sorted_sort_key)
  moreover have "filter (\<lambda>r. sort_key_of r = []) ?s = filter (\<lambda>r. sort_key_of r = []) xs"
    by (rule sort_key_stable)
  ultimately show ?thesis by (simp add: sort_key_of_Nil)
qed

lemma sort_key_nonapex_sorted:
  "sorted (map (\<lambda>r. rev (split (CHR ''.'') (the (fst r))))
     (filter (\<lambda>r. fst r \<noteq> None) (sort_key sort_key_of xs)))"
proof -
  have a: "sorted (map sort_key_of (filter (\<lambda>r. fst r \<noteq> None) (sort_key sort_key_of xs)))"
    by (rule sorted_filter) (rule sorted_sort_key)
  have b: "map sort_key_of (filter (\<lambda>r. fst r \<noteq> None) (sort_key sort_key_of xs))
     = map (\<lambda>r. rev (split (CHR ''.'') (the (fst r)))) (filter (\<lambda>r. fst r \<noteq> None) (sort_key sort_key_of xs))"
    by (rule map_cong) (auto simp: sort_key_of_def)
  from a show ?thesis unfolding b .
qed

text \<open>
  Claim C8.  The list returned by \<open>build_zone\<close> is a rearrangement of the records in
  the order of their appends: first the apex records (qname \<^verbatim>\<open>None\<close>) in the order
  in which they were appended, then the other records in ascending order of the
  reversed labels of their qnames; and for every key, the records with that key keep
  the order in which they were appended.
\<close>

theorem build_zone_sorted_stable:
  assumes "build_zone c fs d subs add env w = Inr records"
  shows "\<exists>appended. build_zone_records c fs d subs add env w = Inr appended
     \<and> mset records = mset appended
     \<and> records = filter (\<lambda>r. fst r = None) appended @ filter (\<lambda>r. fst r \<noteq> None) records
     \<and> sorted (map (\<lambda>r. rev (split (CHR ''.'') (the (fst r)))) (filter (\<lambda>r. fst r \<noteq> None) records))
     \<and> (\<forall>k. filter (\<lambda>r. sort_key_of r = k) records = filter (\<lambda>r. sort_key_of r = k) appended)"
proof -
  from assms obtain appended where
    ap: "build_zone_records c fs d subs add env w = Inr appended"
    and r: "records = sort_key sort_key_of appended"
    by (auto simp: build_zone_def split: sum.splits)
  have 1: "mset records = mset appended" unfolding r by simp
  have 2: "records = filter (\<lambda>r. fst r = None) appended @ filter (\<lambda>r. fst r \<noteq> None) records"
    unfolding r by (rule sort_key_apex_first)
  have 3: "sorted (map (\<lambda>r. rev (split (CHR ''.'') (the (fst r)))) (filter (\<lambda>r. fst r \<noteq> None) records))"
    unfolding r by (rule sort_key_nonapex_sorted)
  have 4: "\<forall>k. filter (\<lambda>r. sort_key_of r = k) records = filter (\<lambda>r. sort_key_of r = k) appended"
    unfolding r by (simp add: sort_key_stable)
  from ap 1 2 3 4 show ?thesis by (intro exI[of _ appended] conjI)
qed

theorem build_zone_sorted_stable_witness:
  "\<exists>records appended.
     build_zone (Inr ''00'') Map.empty ''example.com'' [] [(''b.example.com'', Str ''5.6.7.8'')] env1 True
       = Inr records
   \<and> build_zone_records (Inr ''00'') Map.empty ''example.com'' [] [(''b.example.com'', Str ''5.6.7.8'')]
         env1 True = Inr appended
   \<and> appended = [(None, ''NS'', ''ns1.box.example.org.''), (None, ''NS'', ''ns2.box.example.org.''),
         (None, ''MX'', ''10 box.example.org.''), (None, ''TXT'', dquote @ ''v=spf1 mx -all'' @ dquote),
         (Some ''b'', ''A'', ''5.6.7.8''), (None, ''A'', ''1.2.3.4''), (Some ''www'', ''A'', ''1.2.3.4'')]
   \<and> records = [(None, ''NS'', ''ns1.box.example.org.''), (None, ''NS'', ''ns2.box.example.org.''),
         (None, ''MX'', ''10 box.example.org.''), (None, ''TXT'', dquote @ ''v=spf1 mx -all'' @ dquote),
         (None, ''A'', ''1.2.3.4''), (Some ''b'', ''A'', ''5.6.7.8''), (Some ''www'', ''A'', ''1.2.3.4'')]
   \<and> records = filter (\<lambda>r. fst r = None) appended @ filter (\<lambda>r. fst r \<noteq> None) records"
proof -
  let ?A = "[(None, ''NS'', ''ns1.box.example.org.''), (None, ''NS'', ''ns2.box.example.org.''),
         (None, ''MX'', ''10 box.example.org.''), (None, ''TXT'', dquote @ ''v=spf1 mx -all'' @ dquote),
         (Some ''b'', ''A'', ''5.6.7.8''), (None, ''A'', ''1.2.3.4''), (Some ''www'', ''A'', ''1.2.3.4'')]"
  let ?L = "[(None, ''NS'', ''ns1.box.example.org.''), (None, ''NS'', ''ns2.box.example.org.''),
         (None, ''MX'', ''10 box.example.org.''), (None, ''TXT'', dquote @ ''v=spf1 mx -all'' @ dquote),
         (None, ''A'', ''1.2.3.4''), (Some ''b'', ''A'', ''5.6.7.8''), (Some ''www'', ''A'', ''1.2.3.4'')]"
  have a: "build_zone_records (Inr ''00'') Map.empty ''example.com'' [] [(''b.example.com'', Str ''5.6.7.8'')]
         env1 True = Inr ?A"
    by (simp add: bz_eval env1_def)
  have e: "build_zone (Inr ''00'') Map.empty ''example.com'' [] [(''b.example.com'', Str ''5.6.7.8'')] env1 True
       = Inr ?L"
    by (simp add: bz_eval env1_def)
  from build_zone_sorted_stable[OF e]
  have "?L = filter (\<lambda>r. fst r = None) ?A @ filter (\<lambda>r. fst r \<noteq> None) ?L"
    unfolding a by (elim exE conjE) simp
  with e a show ?thesis by (intro exI[of _ ?L] exI[of _ ?A] conjI refl)
qed

subsection \<open>Default address records\<close>

lemma has_rec_filter:
  "has_rec rs q (Str t) \<longleftrightarrow> filter (\<lambda>r. fst r = q \<and> fst (snd r) = t) rs \<noteq> []"
  by (auto simp: has_rec_def filter_empty_conv)

lemma filter_cond_append:
  "filter P (if c then rs @ [x] else rs) = filter P rs @ (if c \<and> P x then [x] else [])"
  by simp

lemma add_defaults_apex_A:
  "filter (\<lambda>r. fst r = None \<and> fst (snd r) = ''A'') (add_defaults env rs)
     = (if filter (\<lambda>r. fst r = None \<and> fst (snd r) = ''A'') rs = [] then [(None, ''A'', PUBLIC_IP env)]
        else filter (\<lambda>r. fst r = None \<and> fst (snd r) = ''A'') rs)"
  unfolding add_defaults_def Let_def filter_cond_append has_rec_filter
  by simp

lemma add_defaults_www_A:
  "filter (\<lambda>r. fst r = Some ''www'' \<and> fst (snd r) = ''A'') (add_defaults env rs)
     = (if filter (\<lambda>r. fst r = Some ''www'' \<and> fst (snd r) = ''A'') rs = []
        then [(Some ''www'', ''A'', PUBLIC_IP env)]
        else filter (\<lambda>r. fst r = Some ''www'' \<and> fst (snd r) = ''A'') rs)"
  unfolding add_defaults_def Let_def filter_cond_append has_rec_filter
  by simp

lemma add_dkim_absent:
  "fs (os_path_join (STORAGE_ROOT env) ''mail/dkim/mail.txt'') = None \<Longrightarrow> add_dkim fs env rs = Inr rs"
  by (simp add: add_dkim_def)

lemma primary_records_no_A:
  assumes "d = PRIMARY_HOSTNAME env \<longrightarrow> (\<exists>h. c = Inr h)"
  shows "\<exists>p. primary_records c d env = Inr p
     \<and> filter (\<lambda>r. fst r = None) p = []
     \<and> filter (\<lambda>r. fst r = Some ''www'' \<and> fst (snd r) = ''A'') p = []"
  using assms by (auto simp: primary_records_def build_tlsa_record_def)

lemma builtin_records_no_A:
  "filter (\<lambda>r. fst r = None \<and> fst (snd r) = ''A'') (builtin_records env w) = []"
  "filter (\<lambda>r. fst r = Some ''www'' \<and> fst (snd r) = ''A'') (builtin_records env w) = []"
  by (simp_all add: builtin_records_def)

lemma filter_apex_None:
  "filter (\<lambda>r. fst r = None) p = [] \<Longrightarrow> filter (\<lambda>r. fst r = None \<and> P r) p = []"
  by (auto simp: filter_empty_conv)

lemma filter_sort_single:
  "filter P xs = [x] \<Longrightarrow> filter P (sort_key f xs) = [x]"
  by (simp add: filter_sort)

lemma leaf_apex_A:
  assumes nd: "fs (os_path_join (STORAGE_ROOT env) ''mail/dkim/mail.txt'') = None"
      and c: "s = PRIMARY_HOSTNAME env \<longrightarrow> (\<exists>h. c = Inr h)"
  shows "\<exists>children. build_zone c fs s [] [] env False = Inr children
     \<and> filter (\<lambda>r. fst r = None \<and> fst (snd r) = ''A'') children = [(None, ''A'', PUBLIC_IP env)]"
proof -
  from primary_records_no_A[OF c] obtain p where p: "primary_records c s env = Inr p"
    and pn: "filter (\<lambda>r. fst r = None) p = []" by blast
  have e: "build_zone c fs s [] [] env False
             = Inr (sort_key sort_key_of (add_defaults env (builtin_records env False @ p)))"
    by (simp add: build_zone_def build_zone_records_leaf p add_dkim_absent[of fs env, OF nd])
  have x: "filter (\<lambda>r. fst r = None \<and> fst (snd r) = ''A'') (builtin_records env False @ p) = []"
    using builtin_records_no_A(1) filter_apex_None[OF pn] by simp
  have "filter (\<lambda>r. fst r = None \<and> fst (snd r) = ''A'')
      (add_defaults env (builtin_records env False @ p)) = [(None, ''A'', PUBLIC_IP env)]"
    unfolding add_defaults_apex_A x by simp
  from filter_sort_single[OF this] e show ?thesis
    by (intro exI[of _ "sort_key sort_key_of (add_defaults env (builtin_records env False @ p))"] conjI)
qed

lemma no_dot_www: "c @ ''.'' @ q \<noteq> ''www''"
proof
  assume "c @ ''.'' @ q = ''www''"
  then have "set (c @ ''.'' @ q) = set ''www''" by simp
  then show False by auto
qed

lemma requalify_www:
  "(fst (requalify q r) = Some ''www'' \<and> fst (snd (requalify q r)) = ''A'')
     \<longleftrightarrow> (q = ''www'' \<and> fst r = None \<and> fst (snd r) = ''A'')"
  using no_dot_www by (cases r) (auto simp: requalify_def split: option.splits)

lemma requalify_not_apex: "fst (requalify q r) \<noteq> None"
  by (cases r) (simp add: requalify_def)

lemma requalify_filter_apex: "filter (\<lambda>r. fst r = None) (map (requalify q) cs) = []"
  by (induction cs) (simp_all add: requalify_not_apex)

lemma requalify_children_www:
  assumes "filter (\<lambda>r. fst r = None \<and> fst (snd r) = ''A'') children = [(None, ''A'', ip)]"
  shows "filter (\<lambda>r. fst r = Some ''www'' \<and> fst (snd r) = ''A'') (map (requalify q) children)
     = (if q = ''www'' then [(Some ''www'', ''A'', ip)] else [])"
proof -
  have "filter (\<lambda>r. fst r = Some ''www'' \<and> fst (snd r) = ''A'') (map (requalify q) children)
      = map (requalify q) (filter (\<lambda>r. q = ''www'' \<and> fst r = None \<and> fst (snd r) = ''A'') children)"
    by (simp add: filter_map comp_def requalify_www)
  also have "\<dots> = (if q = ''www'' then [(Some ''www'', ''A'', ip)] else [])"
    using assms by (simp add: requalify_def)
  finally show ?thesis .
qed

lemma subdomain_qname_www:
  assumes "endswith s (''.'' @ d)"
  shows "take (length s - length (''.'' @ d)) s = ''www'' \<longleftrightarrow> s = ''www.'' @ d"
proof
  assume t: "take (length s - length (''.'' @ d)) s = ''www''"
  from assms have "drop (length s - length (''.'' @ d)) s = ''.'' @ d" by (simp add: endswith_def)
  with t have "take (length s - length (''.'' @ d)) s @ drop (length s - length (''.'' @ d)) s
      = ''www'' @ ''.'' @ d" by (simp only:)
  then show "s = ''www.'' @ d" by (simp only: append_take_drop_id) simp
next
  assume "s = ''www.'' @ d"
  then show "take (length s - length (''.'' @ d)) s = ''www''" by simp
qed

lemma sub_records_A:
  assumes nd: "fs (os_path_join (STORAGE_ROOT env) ''mail/dkim/mail.txt'') = None"
  shows "distinct subs \<Longrightarrow> \<forall>s\<in>set subs. endswith s (''.'' @ d)
     \<Longrightarrow> PRIMARY_HOSTNAME env \<in> set subs \<longrightarrow> (\<exists>h. c = Inr h)
     \<Longrightarrow> \<exists>sr. collect (map (\<lambda>subdomain.
              case build_zone c fs subdomain [] [] env False of
                Inl e \<Rightarrow> Inl e
              | Inr children \<Rightarrow>
                  Inr (map (requalify (take (length subdomain - length (''.'' @ d)) subdomain)) children))
            subs) = Inr sr
        \<and> filter (\<lambda>r. fst r = None) sr = []
        \<and> filter (\<lambda>r. fst r = Some ''www'' \<and> fst (snd r) = ''A'') sr
            = (if ''www.'' @ d \<in> set subs then [(Some ''www'', ''A'', PUBLIC_IP env)] else [])"
proof (induction subs)
  case Nil then show ?case by simp
next
  case (Cons s subs)
  from Cons.prems have "s = PRIMARY_HOSTNAME env \<longrightarrow> (\<exists>h. c = Inr h)" by auto
  from leaf_apex_A[of fs env, OF nd this] obtain children where
    ch: "build_zone c fs s [] [] env False = Inr children"
    and ca: "filter (\<lambda>r. fst r = None \<and> fst (snd r) = ''A'') children = [(None, ''A'', PUBLIC_IP env)]"
    by blast
  from Cons obtain sr where
    sr: "collect (map (\<lambda>subdomain.
              case build_zone c fs subdomain [] [] env False of
                Inl e \<Rightarrow> Inl e
              | Inr children \<Rightarrow>
                  Inr (map (requalify (take (length subdomain - length (''.'' @ d)) subdomain)) children))
            subs) = Inr sr"
    and sn: "filter (\<lambda>r. fst r = None) sr = []"
    and sw: "filter (\<lambda>r. fst r = Some ''www'' \<and> fst (snd r) = ''A'') sr
            = (if ''www.'' @ d \<in> set subs then [(Some ''www'', ''A'', PUBLIC_IP env)] else [])"
    by auto
  let ?q = "take (length s - length (''.'' @ d)) s"
  from Cons.prems have es: "endswith s (''.'' @ d)" and ns: "s \<notin> set subs" by auto
  note q = subdomain_qname_www[OF es]
  have 1: "filter (\<lambda>r. fst r = None) (map (requalify ?q) children @ sr) = []"
    using sn by (simp add: requalify_filter_apex)
  have 2: "filter (\<lambda>r. fst r = Some ''www'' \<and> fst (snd r) = ''A'') (map (requalify ?q) children @ sr)
      = (if ''www.'' @ d \<in> set (s # subs) then [(Some ''www'', ''A'', PUBLIC_IP env)] else [])"
    using requalify_children_www[OF ca, of ?q] sw q ns by auto
  show ?case
    apply (rule exI[of _ "map (requalify ?q) children @ sr"])
    using 1 2 ch sr by simp
qed

lemma build_zone_nodkim:
  assumes nd: "fs (os_path_join (STORAGE_ROOT env) ''mail/dkim/mail.txt'') = None"
      and sr: "collect (map (\<lambda>subdomain.
              case build_zone c fs subdomain [] [] env False of
                Inl e \<Rightarrow> Inl e
              | Inr children \<Rightarrow>
                  Inr (map (requalify (take (length subdomain - length (''.'' @ domain)) subdomain)) children))
            subdomains) = Inr sr"
      and p: "primary_records c domain env = Inr p"
  shows "build_zone c fs domain subdomains add env w
      = Inr (sort_key sort_key_of (add_defaults env
               (add_custom domain (builtin_records env w @ sr @ p) add)))"
proof -
  have "build_zone_records c fs domain subdomains add env w
      = add_dkim fs env (add_defaults env (add_custom domain (builtin_records env w @ sr @ p) add))"
    by (subst build_zone_records_unfold) (simp only: sr p sum.case)
  then show ?thesis
    unfolding build_zone_def by (simp only: add_dkim_absent[of fs env, OF nd] sum.case)
qed

text \<open>
  Claim C9.  Without a DKIM record file, for a zone whose subdomains are pairwise
  different names below the apex (as line 65 computes them), and with the certificate
  digest at hand where the primary hostname is the apex or one of the subdomains,
  \<open>build_zone\<close> with no overrides returns a list with exactly one apex A record and
  exactly one A record for www, both with the public IPv4 address; with the override
  \<^verbatim>\<open>{domain: {A: "9.9.9.9"}}\<close> the only apex A record is the one with 9.9.9.9.
\<close>

theorem build_zone_default_a:
  assumes nd: "fs (os_path_join (STORAGE_ROOT env) ''mail/dkim/mail.txt'') = None"
      and di: "distinct subdomains"
      and su: "\<forall>s\<in>set subdomains. endswith s (''.'' @ domain)"
      and ce: "PRIMARY_HOSTNAME env \<in> set (domain # subdomains) \<longrightarrow> (\<exists>h. c = Inr h)"
  shows "(\<exists>records. build_zone c fs domain subdomains [] env True = Inr records
            \<and> filter (\<lambda>r. fst r = None \<and> fst (snd r) = ''A'') records = [(None, ''A'', PUBLIC_IP env)]
            \<and> filter (\<lambda>r. fst r = Some ''www'' \<and> fst (snd r) = ''A'') records
                = [(Some ''www'', ''A'', PUBLIC_IP env)])
       \<and> (\<exists>records. build_zone c fs domain subdomains [(domain, Dict [(''A'', ''9.9.9.9'')])] env True
                = Inr records
            \<and> filter (\<lambda>r. fst r = None \<and> fst (snd r) = ''A'') records = [(None, ''A'', ''9.9.9.9'')])"
proof -
  from ce have c1: "PRIMARY_HOSTNAME env \<in> set subdomains \<longrightarrow> (\<exists>h. c = Inr h)"
    and c2: "domain = PRIMARY_HOSTNAME env \<longrightarrow> (\<exists>h. c = Inr h)" by auto
  from sub_records_A[of fs env, OF nd di su c1] obtain sr where
    sr: "collect (map (\<lambda>subdomain.
              case build_zone c fs subdomain [] [] env False of
                Inl e \<Rightarrow> Inl e
              | Inr children \<Rightarrow>
                  Inr (map (requalify (take (length subdomain - length (''.'' @ domain)) subdomain)) children))
            subdomains) = Inr sr"
    and sn: "filter (\<lambda>r. fst r = None) sr = []"
    and sw: "filter (\<lambda>r. fst r = Some ''www'' \<and> fst (snd r) = ''A'') sr
            = (if ''www.'' @ domain \<in> set subdomains then [(Some ''www'', ''A'', PUBLIC_IP env)] else [])"
    by blast
  from primary_records_no_A[OF c2] obtain p where p: "primary_records c domain env = Inr p"
    and pn: "filter (\<lambda>r. fst r = None) p = []"
    and pw: "filter (\<lambda>r. fst r = Some ''www'' \<and> fst (snd r) = ''A'') p = []" by blast
  define base where "base = builtin_records env True @ sr @ p"
  have ba: "filter (\<lambda>r. fst r = None \<and> fst (snd r) = ''A'') base = []"
    unfolding base_def using builtin_records_no_A(1) filter_apex_None[OF pn] filter_apex_None[OF sn]
    by simp
  have bw: "filter (\<lambda>r. fst r = Some ''www'' \<and> fst (snd r) = ''A'') base
      = (if ''www.'' @ domain \<in> set subdomains then [(Some ''www'', ''A'', PUBLIC_IP env)] else [])"
    unfolding base_def using builtin_records_no_A(2) pw sw by simp
  have e1: "build_zone c fs domain subdomains [] env True
      = Inr (sort_key sort_key_of (add_defaults env base))"
    using build_zone_nodkim[of fs env, OF nd sr p, of "[]" True] by (simp add: base_def)
  have a1: "filter (\<lambda>r. fst r = None \<and> fst (snd r) = ''A'') (add_defaults env base)
      = [(None, ''A'', PUBLIC_IP env)]"
    unfolding add_defaults_apex_A ba by simp
  have w1: "filter (\<lambda>r. fst r = Some ''www'' \<and> fst (snd r) = ''A'') (add_defaults env base)
      = [(Some ''www'', ''A'', PUBLIC_IP env)]"
    unfolding add_defaults_www_A bw by simp
  have first: "\<exists>records. build_zone c fs domain subdomains [] env True = Inr records
            \<and> filter (\<lambda>r. fst r = None \<and> fst (snd r) = ''A'') records = [(None, ''A'', PUBLIC_IP env)]
            \<and> filter (\<lambda>r. fst r = Some ''www'' \<and> fst (snd r) = ''A'') records
                = [(Some ''www'', ''A'', PUBLIC_IP env)]"
    by (intro exI[of _ "sort_key sort_key_of (add_defaults env base)"] conjI e1
          filter_sort_single[OF a1] filter_sort_single[OF w1])
  have cu: "add_custom domain base [(domain, Dict [(''A'', ''9.9.9.9'')])] = base @ [(None, ''A'', ''9.9.9.9'')]"
    by (simp add: has_rec_def)
  have e2: "build_zone c fs domain subdomains [(domain, Dict [(''A'', ''9.9.9.9'')])] env True
      = Inr (sort_key sort_key_of (add_defaults env (base @ [(None, ''A'', ''9.9.9.9'')])))"
    using build_zone_nodkim[of fs env, OF nd sr p, of "[(domain, Dict [(''A'', ''9.9.9.9'')])]" True]
    unfolding base_def[symmetric] cu .
  have a2: "filter (\<lambda>r. fst r = None \<and> fst (snd r) = ''A'') (add_defaults env (base @ [(None, ''A'', ''9.9.9.9'')]))
      = [(None, ''A'', ''9.9.9.9'')]"
    unfolding add_defaults_apex_A using ba by simp
  have second: "\<exists>records. build_zone c fs domain subdomains [(domain, Dict [(''A'', ''9.9.9.9'')])] env True
                = Inr records
            \<and> filter (\<lambda>r. fst r = None \<and> fst (snd r) = ''A'') records = [(None, ''A'', ''9.9.9.9'')]"
    by (intro exI[of _ "sort_key sort_key_of (add_defaults env (base @ [(None, ''A'', ''9.9.9.9'')]))"]
          conjI e2 filter_sort_single[OF a2])
  from first second show ?thesis by (rule conjI)
qed

theorem build_zone_default_a_witness:
  "(\<exists>records. build_zone (Inr ''00'') Map.empty ''example.com'' [''www.example.com''] [] env1 True
                = Inr records
            \<and> filter (\<lambda>r. fst r = None \<and> fst (snd r) = ''A'') records = [(None, ''A'', PUBLIC_IP env1)]
            \<and> filter (\<lambda>r. fst r = Some ''www'' \<and> fst (snd r) = ''A'') records
                = [(Some ''www'', ''A'', PUBLIC_IP env1)])
       \<and> (\<exists>records. build_zone (Inr ''00'') Map.empty ''example.com'' [''www.example.com'']
                [(''example.com'', Dict [(''A'', ''9.9.9.9'')])] env1 True
                = Inr records
            \<and> filter (\<lambda>r. fst r = None \<and> fst (snd r) = ''A'') records = [(None, ''A'', ''9.9.9.9'')])"
proof -
  have h1: "Map.empty (os_path_join (STORAGE_ROOT env1) ''mail/dkim/mail.txt'') = None" by simp
  have h2: "distinct [''www.example.com'']" by simp
  have h3: "\<forall>s\<in>set [''www.example.com'']. endswith s (''.'' @ ''example.com'')"
    by (simp add: endswith_def)
  have h4: "PRIMARY_HOSTNAME env1 \<in> set (''example.com'' # [''www.example.com''])
      \<longrightarrow> (\<exists>h. (Inr ''00'' :: error + string) = Inr h)" by simp
  from build_zone_default_a[of Map.empty env1, OF h1 h2 h3 h4] show ?thesis .
qed

subsection \<open>Serial numbers as strings and as numbers\<close>












subsection \<open>Zone file renderer\<close>

lemmas str_eval = str_of_nat.simps[of "numeral n" for n] str_of_nat.simps[of 0] str_of_nat.simps[of 1]
  str_of_nat.simps[of "Suc 0"] digit_char_def pad_def

lemmas re_eval = serial_match_def rrsig_match_def re_findall_rrsig_def is_digit_def is_space_def
  whitespace_def startswith_def tab_def nl_def Let_def


lemma strftime_serial_now0: "strftime_serial now0 = ''2024060100''"
  by (simp add: strftime_serial_def strftime_date_def now0_def str_eval)




lemma write_nsd_zone_bump:
  assumes "force_bump fs zonefile now1 = Inr True"
  shows "write_nsd_zone domain zonefile records env now1 now2 fs
     = (Inr True, fs(zonefile \<mapsto> replace ''__SERIAL__''
          (case fs zonefile of
             None \<Rightarrow> strftime_serial now2
           | Some existing_zone \<Rightarrow>
               (case re_search_serial existing_zone of
                  None \<Rightarrow> strftime_serial now2
                | Some (existing_serial, matched) \<Rightarrow>
                    if existing_serial \<ge> strftime_serial now2
                    then str_of_nat (int_of_str existing_serial + 1)
                    else strftime_serial now2))
          (zone_text domain records env)))"
  using assms by (simp add: write_nsd_zone_def Let_def split: option.splits)


lemma write_nsd_zone_no_match:
  assumes "fs zonefile = Some existing_zone"
      and "re_search_serial existing_zone = None"
      and "force_bump fs zonefile now1 = Inr bump"
  shows "write_nsd_zone domain zonefile records env now1 now2 fs
     = (Inr True, fs(zonefile \<mapsto> replace ''__SERIAL__'' (strftime_serial now2)
                                       (zone_text domain records env)))"
  using assms by (simp add: write_nsd_zone_def Let_def)














lemma zf0_signed: "zf0 @ ''.signed'' \<noteq> zf0"
  by simp



text \<open>
  Claim C10.  When the zone file exists and holds no serial number line, and the
  check of the signature's expiration raises no exception, \<open>write_nsd_zone\<close> writes
  the file and returns \<^verbatim>\<open>True\<close>, whatever the file holds, and the serial number it
  writes is the one made from the date: no number of the old file is looked at.
\<close>

theorem write_nsd_zone_no_serial_line:
  assumes "fs zonefile = Some existing_zone"
      and "re_search_serial existing_zone = None"
      and "force_bump fs zonefile now1 = Inr bump"
  shows "write_nsd_zone domain zonefile records env now1 now2 fs
     = (Inr True, fs(zonefile \<mapsto> replace ''__SERIAL__'' (strftime_serial now2)
                                       (zone_text domain records env)))"
  using assms by (simp add: write_nsd_zone_def Let_def)

theorem write_nsd_zone_no_serial_line_witness:
  "write_nsd_zone ''example.com'' zf0 recs0 env1 now0 now0 [zf0 \<mapsto> ''$ORIGIN example.com. ; 2024060199'']
     = (Inr True, [zf0 \<mapsto> written0])"
proof -
  have h1: "[zf0 \<mapsto> ''$ORIGIN example.com. ; 2024060199''] zf0 = Some ''$ORIGIN example.com. ; 2024060199''"
    by simp
  have h2: "re_search_serial ''$ORIGIN example.com. ; 2024060199'' = None"
    by (simp add: re_eval)
  have h3: "force_bump [zf0 \<mapsto> ''$ORIGIN example.com. ; 2024060199''] zf0 now0 = Inr True"
    by (simp add: force_bump_def zf0_signed)
  from write_nsd_zone_no_serial_line[OF h1 h2 h3, of "''example.com''" recs0 env1 now0]
  show ?thesis by (simp add: strftime_serial_now0 written0_def)
qed



text \<open>
  Claim C2 says that whenever the stored serial number is at least the serial number
  made from the date, the number written is the stored one plus one.  Line 315
  compares the two as strings.  For the numbers of the claim, 2024060199 stored on
  1 June 2024, the file gets 2024060200.  For a stored serial number written with a
  leading zero, 02024060199, the string comparison finds it smaller than 2024060100,
  and the file gets 2024060100, which is less than the number stored.
\<close>

theorem write_nsd_zone_serial_string_comparison:
  "write_nsd_zone ''example.com'' zf0 recs0 env1 now0 now0 [zf0 \<mapsto> ''2024060199 ; serial number'']
     = (Inr True, [zf0 \<mapsto> replace ''__SERIAL__'' ''2024060200'' (zone_text ''example.com'' recs0 env1)])
   \<and> write_nsd_zone ''example.com'' zf0 recs0 env1 now0 now0 [zf0 \<mapsto> ''02024060199 ; serial number'']
     = (Inr True, [zf0 \<mapsto> replace ''__SERIAL__'' ''2024060100'' (zone_text ''example.com'' recs0 env1)])"
proof
  have s1: "re_search_serial ''2024060199 ; serial number''
      = Some (''2024060199'', ''2024060199 ; serial number'')"
    by (simp add: re_eval)
  have n1: "int_of_str ''2024060199'' = 2024060199"
    by (simp add: int_of_str_def digit_val_def)
  have fb1: "force_bump [zf0 \<mapsto> ''2024060199 ; serial number''] zf0 now0 = Inr True"
    by (simp add: force_bump_def zf0_signed)
  show "write_nsd_zone ''example.com'' zf0 recs0 env1 now0 now0 [zf0 \<mapsto> ''2024060199 ; serial number'']
     = (Inr True, [zf0 \<mapsto> replace ''__SERIAL__'' ''2024060200'' (zone_text ''example.com'' recs0 env1)])"
    unfolding write_nsd_zone_bump[OF fb1]
    by (simp add: s1 n1 str_eval strftime_serial_now0 del: re_search_serial.simps)
  have s2: "re_search_serial ''02024060199 ; serial number''
      = Some (''02024060199'', ''02024060199 ; serial number'')"
    by (simp add: re_eval)
  have fb2: "force_bump [zf0 \<mapsto> ''02024060199 ; serial number''] zf0 now0 = Inr True"
    by (simp add: force_bump_def zf0_signed)
  show "write_nsd_zone ''example.com'' zf0 recs0 env1 now0 now0 [zf0 \<mapsto> ''02024060199 ; serial number'']
     = (Inr True, [zf0 \<mapsto> replace ''__SERIAL__'' ''2024060100'' (zone_text ''example.com'' recs0 env1)])"
    unfolding write_nsd_zone_bump[OF fb2]
    by (simp add: s2 strftime_serial_now0 del: re_search_serial.simps)
qed

end
